theory Spec2Isabelle
  imports Complex_Main
begin

section \<open>Data model (src/types.ts)\<close>

datatype TaskStatus = TODO | IN_PROGRESS | COMPLETED

datatype Priority = P1 | P2 | P3 | P4

text \<open>\<open>PriorityQuadrant\<close> is \<open>'Q1' | 'Q2' | 'Q3' | 'Q4' | null\<close>; \<open>QNull\<close> is the \<open>null\<close> member.\<close>

datatype PriorityQuadrant = Q1 | Q2 | Q3 | Q4 | QNull

text \<open>
  A \<open>SubTask\<close> node. Optional fields (\<open>field?: T\<close>) are options, \<open>None\<close> standing for
  \<open>undefined\<close>. Numbers are integers; \<open>scheduledDate\<close> and \<open>deadline\<close> are epoch
  milliseconds. The selector of \<open>id\<close> is \<open>id_task\<close>.
\<close>

datatype SubTask = SubTask
  (id_task: string)
  (title: string)
  (status: TaskStatus)
  (estimatedMinutes: int)
  (priority: "Priority option")
  (tags: "string list option")
  (actualMinutes: "int option")
  (scheduledDate: "int option")
  (deadline: "int option")
  (priorityQuadrant: "PriorityQuadrant option")
  (subtasks: "SubTask list option")

record ChatMessage =
  id_m :: string
  role :: string
  text_m :: string
  timestamp :: int
  attachments :: "(string \<times> string) list option"

text \<open>A \<open>Project\<close>; its fields carry the suffix \<open>_p\<close> where a \<open>SubTask\<close> selector has the name.\<close>

record Project =
  id_p :: string
  title_p :: string
  description :: string
  subtasks_p :: "SubTask list"
  createdAt :: int
  status_p :: TaskStatus
  suggestedResources :: "string list option"
  chatHistory :: "ChatMessage list"
  totalEstimatedMinutes :: "int option"

text \<open>
  \<open>Partial<SubTask>\<close>: every key may be missing (\<open>None\<close>) or present (\<open>Some v\<close>); for an
  optional field a present key may hold \<open>undefined\<close> (\<open>Some None\<close>), which is what
  \<open>{ scheduledDate: undefined }\<close> is.
\<close>

record SubTaskPartial =
  id_u :: "string option"
  title_u :: "string option"
  status_u :: "TaskStatus option"
  estimatedMinutes_u :: "int option"
  priority_u :: "Priority option option"
  tags_u :: "string list option option"
  actualMinutes_u :: "int option option"
  scheduledDate_u :: "int option option"
  deadline_u :: "int option option"
  priorityQuadrant_u :: "PriorityQuadrant option option"
  subtasks_u :: "SubTask list option option"

definition noUpdates :: SubTaskPartial where
  "noUpdates = \<lparr> id_u = None, title_u = None, status_u = None, estimatedMinutes_u = None,
     priority_u = None, tags_u = None, actualMinutes_u = None, scheduledDate_u = None,
     deadline_u = None, priorityQuadrant_u = None, subtasks_u = None \<rparr>"

text \<open>The object spread \<open>{ ...t, ...updates }\<close>: keys of \<open>updates\<close> override those of \<open>t\<close>.\<close>

definition override :: "'a \<Rightarrow> 'a option \<Rightarrow> 'a" where
  "override old new = (case new of None \<Rightarrow> old | Some v \<Rightarrow> v)"

definition spread :: "SubTask \<Rightarrow> SubTaskPartial \<Rightarrow> SubTask" where
  "spread t updates = SubTask
     (override (id_task t) (id_u updates))
     (override (title t) (title_u updates))
     (override (status t) (status_u updates))
     (override (estimatedMinutes t) (estimatedMinutes_u updates))
     (override (priority t) (priority_u updates))
     (override (tags t) (tags_u updates))
     (override (actualMinutes t) (actualMinutes_u updates))
     (override (scheduledDate t) (scheduledDate_u updates))
     (override (deadline t) (deadline_u updates))
     (override (priorityQuadrant t) (priorityQuadrant_u updates))
     (override (subtasks t) (subtasks_u updates))"

text \<open>\<open>{ ...t, subtasks: ss }\<close> and \<open>{ ...t, scheduledDate: date }\<close>.\<close>

definition with_subtasks :: "SubTask \<Rightarrow> SubTask list option \<Rightarrow> SubTask" where
  "with_subtasks t ss = SubTask (id_task t) (title t) (status t) (estimatedMinutes t)
     (priority t) (tags t) (actualMinutes t) (scheduledDate t) (deadline t)
     (priorityQuadrant t) ss"


text \<open>Truthiness of an optional number: \<open>undefined\<close> and \<open>0\<close> are falsy.\<close>

definition truthy :: "int option \<Rightarrow> bool" where
  "truthy v = (case v of None \<Rightarrow> False | Some n \<Rightarrow> n \<noteq> 0)"

section \<open>Dates\<close>

text \<open>
  A JavaScript \<open>Date\<close> is its epoch-millisecond value. Local time is modelled as a zone of
  fixed offset zero (no daylight-saving transitions), so a calendar day is a block of
  86400000 ms. \<open>toDateString\<close> names the calendar day; the model keeps the day's number
  in place of the string.
\<close>

type_synonym Date = int

definition MS_PER_DAY :: int where
  "MS_PER_DAY = 86400000"

definition toDateString :: "Date \<Rightarrow> int" where
  "toDateString d = d div MS_PER_DAY"

definition getHours :: "Date \<Rightarrow> int" where
  "getHours d = (d mod MS_PER_DAY) div 3600000"

definition getMinutes :: "Date \<Rightarrow> int" where
  "getMinutes d = (d mod 3600000) div 60000"

text \<open>\<open>getDay\<close>: 0 is Sunday; 1 January 1970 was a Thursday.\<close>

definition getDay :: "Date \<Rightarrow> int" where
  "getDay d = (d div MS_PER_DAY + 4) mod 7"

text \<open>\<open>d.setHours(h, m, s, ms)\<close> keeps the calendar day and carries overflowing minutes.\<close>

definition setHours :: "Date \<Rightarrow> int \<Rightarrow> int \<Rightarrow> int \<Rightarrow> int \<Rightarrow> Date" where
  "setHours d h m s ms = (d div MS_PER_DAY) * MS_PER_DAY + h * 3600000 + m * 60000 + s * 1000 + ms"

definition addDays :: "Date \<Rightarrow> int \<Rightarrow> Date" where
  "addDays d days = d + days * MS_PER_DAY"

definition getStartOfWeek :: "Date \<Rightarrow> Date" where
  "getStartOfWeek d = setHours (d - getDay d * MS_PER_DAY) 0 0 0 0"

text \<open>
  Where the zone decides the outcome (the drop handlers), local time is read through a zone,
  after \<open>LocalTZA\<close> of ECMAScript: \<open>offsetAt\<close> is the offset in effect at an instant,
  \<open>offsetOfLocal\<close> the offset by which a local time value is read, which for a local time
  skipped by a daylight-saving transition is the offset before the transition. The functions
  above then act on local time values: \<open>d.setHours(h, m, s, ms)\<close> sets the fields of the
  local time of \<open>d\<close> and reads the result back as an instant, and \<open>new Date(year, month, day)\<close>
  reads the midnight of a calendar day (given by its number) as an instant.
\<close>

record Zone =
  offsetAt :: "int \<Rightarrow> int"
  offsetOfLocal :: "int \<Rightarrow> int"

definition LocalTime :: "Zone \<Rightarrow> Date \<Rightarrow> int" where
  "LocalTime z t = t + offsetAt z t"

definition UTC :: "Zone \<Rightarrow> int \<Rightarrow> Date" where
  "UTC z tlocal = tlocal - offsetOfLocal z tlocal"






section \<open>Task trees (src/components/Planner.tsx, App)\<close>

lemma size_subtasks [termination_simp]:
  "subtasks t = Some ss \<Longrightarrow> size_list size ss < size t"
  by (cases t) simp

lemma size_subtasks_member [termination_simp]:
  "Some ss = subtasks t \<Longrightarrow> x \<in> set ss \<Longrightarrow> size x < size t"
proof -
  assume a: "Some ss = subtasks t" and x: "x \<in> set ss"
  have "size x \<le> size_list size ss"
    using x by (rule size_list_estimation') simp
  also have "size_list size ss < size t"
    using a by (intro size_subtasks) simp
  finally show ?thesis .
qed

fun flattenTasks :: "SubTask list \<Rightarrow> SubTask list" where
  "flattenTasks [] = []"
| "flattenTasks (task # rest) =
     (task # (case subtasks task of
                Some ss \<Rightarrow> if length ss > 0 then flattenTasks ss else []
              | None \<Rightarrow> [])) @ flattenTasks rest"

fun bulkUpdateTaskInTree :: "SubTask list \<Rightarrow> string \<Rightarrow> SubTaskPartial \<Rightarrow> SubTask list" where
  "bulkUpdateTaskInTree tasks taskId updates =
     map (\<lambda>t. if id_task t = taskId then spread t updates
              else (case subtasks t of
                      Some ss \<Rightarrow> with_subtasks t (Some (bulkUpdateTaskInTree ss taskId updates))
                    | None \<Rightarrow> t)) tasks"

fun recursiveUpdate :: "SubTask list \<Rightarrow> string \<Rightarrow> (SubTask \<Rightarrow> SubTask) \<Rightarrow> SubTask list" where
  "recursiveUpdate tasks targetId updater =
     map (\<lambda>t. if id_task t = targetId then updater t
              else (case subtasks t of
                      Some ss \<Rightarrow> with_subtasks t (Some (recursiveUpdate ss targetId updater))
                    | None \<Rightarrow> t)) tasks"


definition handleUpdateTask :: "Project list \<Rightarrow> string \<Rightarrow> string \<Rightarrow> SubTaskPartial \<Rightarrow> Project list" where
  "handleUpdateTask prev projectId taskId updates =
     map (\<lambda>p. if id_p p \<noteq> projectId then p
              else p\<lparr>subtasks_p :=
                recursiveUpdate (subtasks_p p) taskId (\<lambda>t. spread t updates)\<rparr>) prev"

text \<open>The \<open>useMemo\<close> that splits the non-completed tasks into backlog and calendar.\<close>

definition projectEntries :: "Project \<Rightarrow> (Project \<times> SubTask) list" where
  "projectEntries p = map (\<lambda>t. (p, t)) (flattenTasks (subtasks_p p))"

definition unscheduledTasks :: "Project list \<Rightarrow> (Project \<times> SubTask) list" where
  "unscheduledTasks projects =
     concat (map (\<lambda>p. filter (\<lambda>(p', t). status t \<noteq> COMPLETED \<and> \<not> truthy (scheduledDate t))
                        (projectEntries p)) projects)"

definition scheduledTasks :: "Project list \<Rightarrow> (Project \<times> SubTask) list" where
  "scheduledTasks projects =
     concat (map (\<lambda>p. filter (\<lambda>(p', t). status t \<noteq> COMPLETED \<and> truthy (scheduledDate t))
                        (projectEntries p)) projects)"

section \<open>Occupancy grid\<close>

text \<open>
  A day's grid is a JavaScript array of booleans. A read outside the array gives
  \<open>undefined\<close>, which is falsy; a write at an index past the end extends the array,
  the hole reading as falsy; a write at a negative index leaves the elements alone.
\<close>

definition array_get :: "bool list \<Rightarrow> int \<Rightarrow> bool" where
  "array_get slots i = (0 \<le> i \<and> nat i < length slots \<and> slots ! nat i)"

definition array_set :: "bool list \<Rightarrow> int \<Rightarrow> bool \<Rightarrow> bool list" where
  "array_set slots i v =
     (if i < 0 then slots
      else if nat i < length slots then slots[nat i := v]
      else slots @ replicate (nat i - length slots) False @ [v])"

type_synonym Occupied = "int \<rightharpoonup> bool list"

text \<open>\<open>daysToSchedule.forEach(day => if (!occupied.has(dayStr)) occupied.set(dayStr, ...))\<close>\<close>

fun initOccupied :: "Date list \<Rightarrow> Occupied \<Rightarrow> Occupied" where
  "initOccupied [] occupied = occupied"
| "initOccupied (day # rest) occupied =
     initOccupied rest
       (if occupied (toDateString day) = None
        then occupied(toDateString day \<mapsto> replicate (24 * 60) False)
        else occupied)"

text \<open>\<open>for (let i = startMin; i < endMin && i < 24*60; i++) slots[i] = true\<close>\<close>

function fillSlots :: "bool list \<Rightarrow> int \<Rightarrow> int \<Rightarrow> bool list" where
  "fillSlots slots i endMin =
     (if i < endMin \<and> i < 24 * 60 then fillSlots (array_set slots i True) (i + 1) endMin
      else slots)"
  by pat_completeness auto
termination
  by (relation "measure (\<lambda>(slots, i, endMin). nat (24 * 60 - i))") auto

definition fillTask :: "Occupied \<Rightarrow> SubTask \<Rightarrow> Occupied" where
  "fillTask occupied task =
     (if \<not> truthy (scheduledDate task) then occupied
      else (case scheduledDate task of
              None \<Rightarrow> occupied
            | Some d \<Rightarrow>
                (case occupied (toDateString d) of
                   None \<Rightarrow> occupied
                 | Some slots \<Rightarrow>
                     (let startMin = getHours d * 60 + getMinutes d;
                          endMin = startMin + estimatedMinutes task
                      in occupied(toDateString d \<mapsto> fillSlots slots startMin endMin)))))"

fun fillOccupied :: "(Project \<times> SubTask) list \<Rightarrow> Occupied \<Rightarrow> Occupied" where
  "fillOccupied [] occupied = occupied"
| "fillOccupied ((project, task) # rest) occupied = fillOccupied rest (fillTask occupied task)"

section \<open>Auto-scheduler (handleAutoSchedule)\<close>

datatype CalendarViewMode = DAY | WEEK | MONTH

text \<open>An entry of \<open>updates\<close>: \<open>{ projectId, taskId, date }\<close>.\<close>

record ScheduleUpdate =
  projectId_upd :: string
  taskId_upd :: string
  date_upd :: int

text \<open>Reading a property of \<open>undefined\<close> throws.\<close>

datatype error = TypeError

definition START_HOUR :: int where
  "START_HOUR = 9"

definition END_HOUR :: int where
  "END_HOUR = 17"

definition daysToSchedule :: "CalendarViewMode \<Rightarrow> Date \<Rightarrow> Date list" where
  "daysToSchedule viewMode currentDate =
     (if viewMode = DAY then [currentDate]
      else map (\<lambda>i. addDays (getStartOfWeek currentDate) (int i)) [0..<7])"

text \<open>\<open>for (let k = 0; k < duration; k++) if (slots[min + k]) { isFree = false; break; }\<close>\<close>

function isFree :: "bool list \<Rightarrow> int \<Rightarrow> int \<Rightarrow> int \<Rightarrow> bool" where
  "isFree slots minute k duration =
     (if k < duration
      then (if array_get slots (minute + k) then False else isFree slots minute (k + 1) duration)
      else True)"
  by pat_completeness auto
termination
  by (relation "measure (\<lambda>(slots, minute, k, duration). nat (duration - k))") auto

text \<open>\<open>for (let k = 0; k < duration; k++) slots[min + k] = true\<close>\<close>

function markSlots :: "bool list \<Rightarrow> int \<Rightarrow> int \<Rightarrow> int \<Rightarrow> bool list" where
  "markSlots slots minute k duration =
     (if k < duration then markSlots (array_set slots (minute + k) True) minute (k + 1) duration
      else slots)"
  by pat_completeness auto
termination
  by (relation "measure (\<lambda>(slots, minute, k, duration). nat (duration - k))") auto

text \<open>
  \<open>for (let min = START_HOUR * 60; min <= (END_HOUR * 60) - duration; min += 15)\<close>:
  the first candidate minute whose cells are all free, if any.
\<close>

function scanDay :: "bool list \<Rightarrow> int \<Rightarrow> int \<Rightarrow> int option" where
  "scanDay slots minute duration =
     (if minute \<le> END_HOUR * 60 - duration
      then (if isFree slots minute 0 duration then Some minute
            else scanDay slots (minute + 15) duration)
      else None)"
  by pat_completeness auto
termination
  by (relation "measure (\<lambda>(slots, minute, duration). nat (END_HOUR * 60 - duration - minute + 1))") auto

text \<open>
  \<open>for (const day of daysToSchedule)\<close>: the body of one queue entry after its duration is
  known. \<open>occupied.get(dayStr)!\<close> is \<open>undefined\<close> for a day without a grid, and the first
  \<open>slots[min + k]\<close> then throws; that read happens when the minute loop runs at all.
  On placement the day's grid is marked and the loop is left.
\<close>

fun placeInDays :: "Date list \<Rightarrow> Occupied \<Rightarrow> int \<Rightarrow> error + ((Date \<times> int) option \<times> Occupied)" where
  "placeInDays [] occupied duration = Inr (None, occupied)"
| "placeInDays (day # rest) occupied duration =
     (case occupied (toDateString day) of
        None \<Rightarrow>
          if START_HOUR * 60 \<le> END_HOUR * 60 - duration \<and> 0 < duration then Inl TypeError
          else placeInDays rest occupied duration
      | Some slots \<Rightarrow>
          (case scanDay slots (START_HOUR * 60) duration of
             Some minute \<Rightarrow>
               Inr (Some (day, minute),
                    occupied(toDateString day \<mapsto> markSlots slots minute 0 duration))
           | None \<Rightarrow> placeInDays rest occupied duration))"

text \<open>\<open>queue.forEach(({ project, task }) => ...)\<close>, threading \<open>updates\<close> and \<open>occupied\<close>.\<close>

fun scheduleQueue ::
  "Date list \<Rightarrow> (Project \<times> SubTask) list \<Rightarrow> ScheduleUpdate list \<times> Occupied
     \<Rightarrow> error + (ScheduleUpdate list \<times> Occupied)" where
  "scheduleQueue days [] st = Inr st"
| "scheduleQueue days ((project, task) # rest) (updates, occupied) =
     (let duration = max 15 (estimatedMinutes task) in
      case placeInDays days occupied duration of
        Inl e \<Rightarrow> Inl e
      | Inr (None, occupied') \<Rightarrow> scheduleQueue days rest (updates, occupied')
      | Inr (Some (day, minute), occupied') \<Rightarrow>
          scheduleQueue days rest
            (updates @ [\<lparr> projectId_upd = id_p project, taskId_upd = id_task task,
                          date_upd = setHours day 0 minute 0 0 \<rparr>],
             occupied'))"

text \<open>\<open>newProjects.findIndex(p => p.id === upd.projectId)\<close>; \<open>None\<close> is \<open>-1\<close>.\<close>

fun findIndex :: "('a \<Rightarrow> bool) \<Rightarrow> 'a list \<Rightarrow> nat option" where
  "findIndex P [] = None"
| "findIndex P (x # xs) = (if P x then Some 0 else map_option Suc (findIndex P xs))"

definition applyUpdate :: "Project list \<Rightarrow> ScheduleUpdate \<Rightarrow> Project list" where
  "applyUpdate newProjects upd =
     (case findIndex (\<lambda>p. id_p p = projectId_upd upd) newProjects of
        None \<Rightarrow> newProjects
      | Some projIndex \<Rightarrow>
          newProjects[projIndex := (newProjects ! projIndex)\<lparr>subtasks_p :=
            bulkUpdateTaskInTree (subtasks_p (newProjects ! projIndex)) (taskId_upd upd)
              (noUpdates\<lparr>scheduledDate_u := Some (Some (date_upd upd))\<rparr>)\<rparr>])"

definition applyUpdates :: "ScheduleUpdate list \<Rightarrow> Project list \<Rightarrow> Project list" where
  "applyUpdates updates prevProjects =
     (if length updates > 0 then foldl applyUpdate prevProjects updates else prevProjects)"

text \<open>The updates of one run, from the grid built for the horizon.\<close>

definition buildOccupied :: "Date list \<Rightarrow> (Project \<times> SubTask) list \<Rightarrow> Occupied" where
  "buildOccupied days scheduled = fillOccupied scheduled (initOccupied days Map.empty)"

definition autoScheduleUpdates ::
  "CalendarViewMode \<Rightarrow> Date \<Rightarrow> Project list \<Rightarrow> error + (ScheduleUpdate list \<times> Occupied)" where
  "autoScheduleUpdates viewMode currentDate projects =
     (let days = daysToSchedule viewMode currentDate
      in scheduleQueue days (unscheduledTasks projects)
           ([], buildOccupied days (scheduledTasks projects)))"

definition handleAutoSchedule ::
  "CalendarViewMode \<Rightarrow> Date \<Rightarrow> Project list \<Rightarrow> error + Project list" where
  "handleAutoSchedule viewMode currentDate projects =
     (case autoScheduleUpdates viewMode currentDate projects of
        Inl e \<Rightarrow> Inl e
      | Inr (updates, occupied) \<Rightarrow> Inr (applyUpdates updates projects))"

section \<open>Interactive placement (drag and drop, resize)\<close>




definition unschedule :: SubTaskPartial where
  "unschedule = noUpdates\<lparr>scheduledDate_u := Some None\<rparr>"

definition handleUnscheduleDrop ::
  "Project list \<Rightarrow> (string \<times> string) option \<Rightarrow> Project list" where
  "handleUnscheduleDrop projects data =
     (case data of
        None \<Rightarrow> projects
      | Some (projectId, taskId) \<Rightarrow> handleUpdateTask projects projectId taskId unschedule)"

text \<open>Pixel coordinates and heights are real numbers; \<open>Math.round\<close> rounds half up.\<close>

definition Math_round :: "real \<Rightarrow> int" where
  "Math_round x = \<lfloor>x + 1 / 2\<rfloor>"

record ResizingTask =
  projectId_r :: string
  taskId_r :: string
  startY :: real
  startHeight :: real

record CalendarState =
  resizingTask :: "ResizingTask option"
  currentResizeHeight :: "real option"



text \<open>The committed duration of a release at candidate height \<open>h\<close>.\<close>

definition snappedMinutes :: "real \<Rightarrow> int" where
  "snappedMinutes h =
     (let newMinutes = Math_round h
      in max 15 (Math_round (real_of_int newMinutes / 15) * 15))"

text \<open>\<open>if (currentResizeHeight)\<close>: \<open>null\<close> and \<open>0\<close> are falsy.\<close>

definition handleMouseUp ::
  "CalendarState \<times> Project list \<Rightarrow> CalendarState \<times> Project list" where
  "handleMouseUp s =
     (case s of (st, projects) \<Rightarrow>
        (case resizingTask st of
           None \<Rightarrow> (st, projects)
         | Some r \<Rightarrow>
             (st\<lparr>resizingTask := None, currentResizeHeight := None\<rparr>,
              (case currentResizeHeight st of
                 None \<Rightarrow> projects
               | Some h \<Rightarrow>
                   if h = 0 then projects
                   else handleUpdateTask projects (projectId_r r) (taskId_r r)
                          (noUpdates\<lparr>estimatedMinutes_u := Some (snappedMinutes h)\<rparr>)))))"



section \<open>Vocabulary of the properties\<close>

text \<open>
  A task's own fields (the node without its children) and the number of its children;
  a store's view lists, for every project, the project without its tree and the own fields
  of its tasks in pre-order. \<open>viewWith f\<close> is the view after \<open>f\<close> has been applied to
  every task.
\<close>

definition own :: "SubTask \<Rightarrow> SubTask \<times> nat option" where
  "own t = (with_subtasks t None, map_option length (subtasks t))"

text \<open>\<open>{ ...t, estimatedMinutes: n }\<close>.\<close>

definition with_estimatedMinutes :: "SubTask \<Rightarrow> int \<Rightarrow> SubTask" where
  "with_estimatedMinutes t n = SubTask (id_task t) (title t) (status t) n
     (priority t) (tags t) (actualMinutes t) (scheduledDate t) (deadline t)
     (priorityQuadrant t) (subtasks t)"

definition viewWith ::
  "(Project \<Rightarrow> SubTask \<Rightarrow> SubTask) \<Rightarrow> Project list \<Rightarrow> (Project \<times> (SubTask \<times> nat option) list) list" where
  "viewWith f projects =
     map (\<lambda>p. (p\<lparr>subtasks_p := []\<rparr>, map (\<lambda>t. own (f p t)) (flattenTasks (subtasks_p p)))) projects"

definition view :: "Project list \<Rightarrow> (Project \<times> (SubTask \<times> nat option) list) list" where
  "view projects = viewWith (\<lambda>p t. t) projects"

text \<open>Within each project no two tasks of the tree share an id.\<close>

definition uniqueIds :: "Project list \<Rightarrow> bool" where
  "uniqueIds projects = list_all (\<lambda>p. distinct (map id_task (flattenTasks (subtasks_p p)))) projects"

text \<open>
  The duration committed by a resize in the spec's words:
  \<open>max(15, round(candidate_height / 15) * 15)\<close>.
\<close>

definition commitDuration_spec :: "real \<Rightarrow> int" where
  "commitDuration_spec h = max 15 (Math_round (h / 15) * 15)"


text \<open>
  \<open>busy occupied day c\<close>: minute \<open>c\<close> of the day is marked in the grid. \<open>covers task day c\<close>:
  the task is scheduled on the day and minute \<open>c\<close> lies in its
  \<open>[startMin, startMin + estimatedMinutes)\<close>.
\<close>

definition busy :: "Occupied \<Rightarrow> int \<Rightarrow> int \<Rightarrow> bool" where
  "busy occupied day c = (case occupied day of None \<Rightarrow> False | Some slots \<Rightarrow> array_get slots c)"

definition covers :: "SubTask \<Rightarrow> int \<Rightarrow> int \<Rightarrow> bool" where
  "covers task day c =
     (case scheduledDate task of
        None \<Rightarrow> False
      | Some d \<Rightarrow> d \<noteq> 0 \<and> toDateString d = day \<and>
          getHours d * 60 + getMinutes d \<le> c \<and>
          c < getHours d * 60 + getMinutes d + estimatedMinutes task)"

text \<open>Every day's grid has its 1440 cells.\<close>

definition wellFormed :: "Occupied \<Rightarrow> bool" where
  "wellFormed occupied = (\<forall>day slots. occupied day = Some slots \<longrightarrow> length slots = 24 * 60)"

text \<open>
  The entries of the queue that a run places, in the order of the queue, each with the day
  and the minute of its slot: the loop of \<open>scheduleQueue\<close>, keeping the task beside the slot
  where \<open>scheduleQueue\<close> keeps the ids and the instant.
\<close>

fun placedEntries ::
  "Date list \<Rightarrow> (Project \<times> SubTask) list \<Rightarrow> Occupied \<Rightarrow> ((Project \<times> SubTask) \<times> Date \<times> int) list" where
  "placedEntries days [] occupied = []"
| "placedEntries days ((project, task) # rest) occupied =
     (case placeInDays days occupied (max 15 (estimatedMinutes task)) of
        Inl e \<Rightarrow> []
      | Inr (None, occupied') \<Rightarrow> placedEntries days rest occupied'
      | Inr (Some (day, minute), occupied') \<Rightarrow>
          ((project, task), day, minute) # placedEntries days rest occupied')"

text \<open>The update that \<open>scheduleQueue\<close> records for a placed entry, and its instant.\<close>

definition updateOf :: "(Project \<times> SubTask) \<times> Date \<times> int \<Rightarrow> ScheduleUpdate" where
  "updateOf e = (case e of ((project, task), day, minute) \<Rightarrow>
     \<lparr> projectId_upd = id_p project, taskId_upd = id_task task,
       date_upd = setHours day 0 minute 0 0 \<rparr>)"



text \<open>Every day of the horizon has a grid.\<close>

definition covered :: "Date list \<Rightarrow> Occupied \<Rightarrow> bool" where
  "covered days occupied = (\<forall>day \<in> set days. occupied (toDateString day) \<noteq> None)"





text \<open>The entries that one run of the handler places.\<close>

definition placedByRun ::
  "CalendarViewMode \<Rightarrow> Date \<Rightarrow> Project list \<Rightarrow> ((Project \<times> SubTask) \<times> Date \<times> int) list" where
  "placedByRun viewMode currentDate projects =
     (let days = daysToSchedule viewMode currentDate
      in placedEntries days (unscheduledTasks projects)
           (buildOccupied days (scheduledTasks projects)))"

text \<open>
  The scheduler in the spec's words. Candidate starts run from 09:00 to 17:00 minus the
  duration, inclusive, in steps of 15 minutes; a slot is free when every minute of
  \<open>[start, start + duration)\<close> is unmarked in the day's grid; a task goes to the first free
  slot, days in horizon order and candidates in order within a day; a placement marks its
  minutes and records an update; the effective duration is \<open>max(15, estimatedMinutes)\<close>.
\<close>

definition candidates_spec :: "int \<Rightarrow> int list" where
  "candidates_spec duration = filter (\<lambda>start. 15 dvd (start - 9 * 60)) [9 * 60 .. 17 * 60 - duration]"

definition slotFree_spec :: "Occupied \<Rightarrow> Date \<Rightarrow> int \<Rightarrow> int \<Rightarrow> bool" where
  "slotFree_spec occupied day start duration =
     (\<forall>c \<in> {start ..< start + duration}. \<not> busy occupied (toDateString day) c)"

definition firstFit_spec :: "Date list \<Rightarrow> Occupied \<Rightarrow> int \<Rightarrow> (Date \<times> int) option" where
  "firstFit_spec days occupied duration =
     List.find (\<lambda>(day, start). slotFree_spec occupied day start duration)
       (concat (map (\<lambda>day. map (\<lambda>start. (day, start)) (candidates_spec duration)) days))"

definition mark_spec :: "Occupied \<Rightarrow> Date \<Rightarrow> int \<Rightarrow> int \<Rightarrow> Occupied" where
  "mark_spec occupied day start duration =
     (case occupied (toDateString day) of
        None \<Rightarrow> occupied
      | Some slots \<Rightarrow>
          occupied(toDateString day \<mapsto>
            map (\<lambda>i. slots ! i \<or> (start \<le> int i \<and> int i < start + duration)) [0..<length slots]))"

fun schedule_spec ::
  "Date list \<Rightarrow> (Project \<times> SubTask) list \<Rightarrow> ScheduleUpdate list \<times> Occupied
     \<Rightarrow> ScheduleUpdate list \<times> Occupied" where
  "schedule_spec days [] st = st"
| "schedule_spec days ((project, task) # rest) (updates, occupied) =
     (let duration = max 15 (estimatedMinutes task) in
      case firstFit_spec days occupied duration of
        None \<Rightarrow> schedule_spec days rest (updates, occupied)
      | Some (day, start) \<Rightarrow>
          schedule_spec days rest
            (updates @ [\<lparr> projectId_upd = id_p project, taskId_upd = id_task task,
                          date_upd = toDateString day * MS_PER_DAY + start * 60000 \<rparr>],
             mark_spec occupied day start duration))"

text \<open>The queue in the spec's words: projects in order, each tree in pre-order.\<close>

fun preorder_spec :: "SubTask \<Rightarrow> SubTask list" where
  "preorder_spec t =
     t # concat (map preorder_spec (case subtasks t of None \<Rightarrow> [] | Some ss \<Rightarrow> ss))"

definition queue_spec :: "Project list \<Rightarrow> (Project \<times> SubTask) list" where
  "queue_spec projects =
     concat (map (\<lambda>p. map (\<lambda>t. (p, t))
                        (filter (\<lambda>t. status t \<noteq> COMPLETED \<and> scheduledDate t = None)
                           (concat (map preorder_spec (subtasks_p p))))) projects)"

text \<open>
  The ids that name a queue entry and an update, and the tasks of a store that a pair of ids
  names: their own fields and numbers of children, in store order.
\<close>

definition keyOf :: "Project \<times> SubTask \<Rightarrow> string \<times> string" where
  "keyOf e = (case e of (project, task) \<Rightarrow> (id_p project, id_task task))"

definition updateKey :: "ScheduleUpdate \<Rightarrow> string \<times> string" where
  "updateKey u = (projectId_upd u, taskId_upd u)"

definition tasksNamed :: "string \<Rightarrow> string \<Rightarrow> Project list \<Rightarrow> (SubTask \<times> nat option) list" where
  "tasksNamed pid tid projects =
     concat (map (\<lambda>p. if id_p p = pid
                       then filter (\<lambda>node. id_task (fst node) = tid)
                              (map own (flattenTasks (subtasks_p p)))
                       else []) projects)"

text \<open>The grid as marked when the queue entry that follows \<open>before\<close> is tried.\<close>

definition gridWhenTried ::
  "Date list \<Rightarrow> (Project \<times> SubTask) list \<Rightarrow> (Project \<times> SubTask) list \<Rightarrow> Occupied" where
  "gridWhenTried days scheduled before =
     snd (schedule_spec days before ([], buildOccupied days scheduled))"





text \<open>
  A local time value exists in a zone when the instant it is read as shows it again; a local
  time skipped by a daylight-saving transition does not.
\<close>

definition existsLocal :: "Zone \<Rightarrow> int \<Rightarrow> bool" where
  "existsLocal z tlocal = (LocalTime z (UTC z tlocal) = tlocal)"

subsection \<open>Sample stores\<close>

text \<open>
  Small stores, tasks and drag states at which the theorems below are instantiated. Day 3
  starts at 259200000 ms; 291600000 is 09:00, 292200000 is 09:10 and 343800000 is 23:30 of
  that day, and 291600123 is an instant of it. The last store holds a stage with two children.
\<close>

definition task0 :: SubTask where
  "task0 = SubTask ''t1'' ''Write report'' TODO 30 None None None (Some 1000) None None None"

definition task1 :: SubTask where
  "task1 = SubTask ''t2'' ''Review notes'' TODO 20 None None None None None None None"

definition project1 :: Project where
  "project1 = \<lparr> id_p = ''p1'', title_p = ''Inbox'', description = ''none'',
     subtasks_p = [task0, task1],
     createdAt = 0, status_p = IN_PROGRESS, suggestedResources = None, chatHistory = [],
     totalEstimatedMinutes = None \<rparr>"


definition doneTask :: SubTask where
  "doneTask = SubTask ''t3'' ''Morning stand-up'' COMPLETED 60 None None None (Some 291600000) None None None"

definition lateTask :: SubTask where
  "lateTask = SubTask ''t4'' ''Night shift'' TODO 60 None None None (Some 343800000) None None None"

definition project2 :: Project where
  "project2 = \<lparr> id_p = ''p2'', title_p = ''Work'', description = ''none'',
     subtasks_p = [doneTask, task1],
     createdAt = 0, status_p = IN_PROGRESS, suggestedResources = None, chatHistory = [],
     totalEstimatedMinutes = None \<rparr>"



definition taskB :: SubTask where
  "taskB = SubTask ''t7'' ''Draft plan'' IN_PROGRESS 30 None None None None None None None"


definition fullTask :: SubTask where
  "fullTask = SubTask ''t8'' ''Workshop'' TODO 480 None None None (Some 291600000) None None None"

definition project4 :: Project where
  "project4 = \<lparr> id_p = ''p4'', title_p = ''Training'', description = ''none'',
     subtasks_p = [fullTask, taskB],
     createdAt = 0, status_p = IN_PROGRESS, suggestedResources = None, chatHistory = [],
     totalEstimatedMinutes = None \<rparr>"

definition childA :: SubTask where
  "childA = SubTask ''c1'' ''Collect figures'' TODO 20 None None None None None None None"

definition childB :: SubTask where
  "childB = SubTask ''c2'' ''Write summary'' TODO 45 None None None None None None None"

definition stage :: SubTask where
  "stage = SubTask ''s1'' ''Stage one'' TODO 0 None None None None None None (Some [childA, childB])"

definition project5 :: Project where
  "project5 = \<lparr> id_p = ''p5'', title_p = ''Report'', description = ''none'',
     subtasks_p = [stage],
     createdAt = 0, status_p = IN_PROGRESS, suggestedResources = None, chatHistory = [],
     totalEstimatedMinutes = None \<rparr>"

definition dragging5 :: "real \<Rightarrow> CalendarState" where
  "dragging5 h = \<lparr> resizingTask = Some \<lparr> projectId_r = ''p5'', taskId_r = ''c1'', startY = 100, startHeight = 30 \<rparr>,
       currentResizeHeight = Some h \<rparr>"



section \<open>Task trees: what an update changes\<close>

lemma recursiveUpdate_Nil: "recursiveUpdate [] tid u = []"
  by simp

lemma recursiveUpdate_Cons:
  "recursiveUpdate (t # ts) tid u =
     (if id_task t = tid then u t
      else (case subtasks t of
              Some ss \<Rightarrow> with_subtasks t (Some (recursiveUpdate ss tid u))
            | None \<Rightarrow> t)) # recursiveUpdate ts tid u"
  by simp

lemma length_recursiveUpdate: "length (recursiveUpdate ts tid u) = length ts"
  by (subst recursiveUpdate.simps) simp

declare recursiveUpdate.simps [simp del]
declare bulkUpdateTaskInTree.simps [simp del]

lemma bulkUpdate_recursiveUpdate:
  "bulkUpdateTaskInTree ts tid updates = recursiveUpdate ts tid (\<lambda>t. spread t updates)"
proof (induction ts tid updates rule: bulkUpdateTaskInTree.induct)
  case (1 tasks taskId updates)
  have ih: "\<And>x ss. x \<in> set tasks \<Longrightarrow> id_task x \<noteq> taskId \<Longrightarrow> subtasks x = Some ss \<Longrightarrow>
      bulkUpdateTaskInTree ss taskId updates = recursiveUpdate ss taskId (\<lambda>t. spread t updates)"
    using 1 by blast
  show ?case
    apply (subst bulkUpdateTaskInTree.simps)
    apply (subst recursiveUpdate.simps)
    apply (rule map_cong[OF refl])
    by (auto split: option.splits simp: ih)
qed

lemma subtasks_with_subtasks: "subtasks (with_subtasks t ss) = ss"
  by (simp add: with_subtasks_def)

lemma own_with_subtasks:
  "subtasks t = Some ss \<Longrightarrow> length ss' = length ss \<Longrightarrow> own (with_subtasks t (Some ss')) = own t"
  by (simp add: own_def with_subtasks_def)

lemma flatten_recursiveUpdate:
  assumes u: "\<And>t. subtasks (u t) = subtasks t"
  shows "distinct (map id_task (flattenTasks ts)) \<Longrightarrow>
    map own (flattenTasks (recursiveUpdate ts tid u)) =
    map (\<lambda>t. own (if id_task t = tid then u t else t)) (flattenTasks ts)"
proof (induction ts rule: flattenTasks.induct)
  case 1
  show ?case by (simp add: recursiveUpdate_Nil)
next
  case (2 task rest)
  have rest: "map own (flattenTasks (recursiveUpdate rest tid u)) =
    map (\<lambda>t. own (if id_task t = tid then u t else t)) (flattenTasks rest)"
    using 2 by simp
  show ?case
  proof (cases "id_task task = tid")
    case True
    have "\<forall>t \<in> set (case subtasks task of Some ss \<Rightarrow> if length ss > 0 then flattenTasks ss else [] | None \<Rightarrow> []). id_task t \<noteq> tid"
    proof (cases "subtasks task")
      case None
      then show ?thesis by simp
    next
      case (Some ss)
      have "id_task task \<notin> id_task ` set (flattenTasks ss)" if "length ss > 0"
        using 2(3) Some that by simp
      then have "\<forall>t \<in> set (flattenTasks ss). id_task t \<noteq> tid" if "length ss > 0"
        using that True by blast
      with Some show ?thesis by simp
    qed
    then have "map (\<lambda>t. own (if id_task t = tid then u t else t))
        (case subtasks task of Some ss \<Rightarrow> if length ss > 0 then flattenTasks ss else [] | None \<Rightarrow> [])
      = map own (case subtasks task of Some ss \<Rightarrow> if length ss > 0 then flattenTasks ss else [] | None \<Rightarrow> [])"
      by (intro map_cong) auto
    with True rest show ?thesis
      by (simp add: recursiveUpdate_Cons u)
  next
    case False
    show ?thesis
    proof (cases "subtasks task")
      case None
      with False rest show ?thesis by (simp add: recursiveUpdate_Cons)
    next
      case (Some ss)
      show ?thesis
      proof (cases "length ss > 0")
        case True
        have "map own (flattenTasks (recursiveUpdate ss tid u)) =
          map (\<lambda>t. own (if id_task t = tid then u t else t)) (flattenTasks ss)"
          using 2(1)[OF Some True] 2(3) Some True by simp
        with False Some True rest show ?thesis
          by (simp add: recursiveUpdate_Cons subtasks_with_subtasks own_with_subtasks length_recursiveUpdate)
      next
        case F: False
        with False Some rest show ?thesis
          by (simp add: recursiveUpdate_Cons subtasks_with_subtasks own_with_subtasks recursiveUpdate_Nil)
      qed
    qed
  qed
qed

section \<open>Resize: rounding and the committed duration\<close>

lemma round15_le_iff: "k \<le> Math_round (x / 15) \<longleftrightarrow> real_of_int (15 * k) - 15 / 2 \<le> x"
  unfolding Math_round_def le_floor_iff by (simp add: field_simps)

lemma round_le_iff: "k \<le> Math_round x \<longleftrightarrow> real_of_int k - 1 / 2 \<le> x"
  unfolding Math_round_def le_floor_iff by (simp add: field_simps)

lemma double_round_le:
  "k \<le> Math_round (real_of_int (Math_round h) / 15) \<longleftrightarrow> k \<le> Math_round (h / 15)"
proof -
  have "k \<le> Math_round (real_of_int (Math_round h) / 15) \<longleftrightarrow>
        real_of_int (15 * k) - 15 / 2 \<le> real_of_int (Math_round h)"
    by (rule round15_le_iff)
  also have "\<dots> \<longleftrightarrow> real_of_int (30 * k - 15) \<le> real_of_int (2 * Math_round h)"
    by auto
  also have "\<dots> \<longleftrightarrow> 30 * k - 15 \<le> 2 * Math_round h"
    by (rule of_int_le_iff)
  also have "\<dots> \<longleftrightarrow> 15 * k - 7 \<le> Math_round h"
    by arith
  also have "\<dots> \<longleftrightarrow> real_of_int (15 * k - 7) - 1 / 2 \<le> h"
    by (rule round_le_iff)
  also have "\<dots> \<longleftrightarrow> real_of_int (15 * k) - 15 / 2 \<le> h"
    by auto
  also have "\<dots> \<longleftrightarrow> k \<le> Math_round (h / 15)"
    by (rule round15_le_iff[symmetric])
  finally show ?thesis .
qed

lemma double_round: "Math_round (real_of_int (Math_round h) / 15) = Math_round (h / 15)"
proof (rule antisym)
  show "Math_round (real_of_int (Math_round h) / 15) \<le> Math_round (h / 15)"
    using double_round_le[of "Math_round (real_of_int (Math_round h) / 15)" h] by simp
  show "Math_round (h / 15) \<le> Math_round (real_of_int (Math_round h) / 15)"
    using double_round_le[of "Math_round (h / 15)" h] by simp
qed

lemma snappedMinutes_formula: "snappedMinutes h = max 15 (Math_round (h / 15) * 15)"
  by (simp add: snappedMinutes_def Let_def double_round)

lemma spread_estimatedMinutes:
  "spread t (noUpdates\<lparr>estimatedMinutes_u := Some n\<rparr>) = with_estimatedMinutes t n"
  by (simp add: spread_def noUpdates_def override_def with_estimatedMinutes_def)

lemma view_recursiveUpdate:
  assumes "uniqueIds projects" and "\<And>t. subtasks (u t) = subtasks t"
  shows "view (map (\<lambda>p. if id_p p \<noteq> pid then p
                       else p\<lparr>subtasks_p := recursiveUpdate (subtasks_p p) tid u\<rparr>) projects)
       = viewWith (\<lambda>p t. if id_p p = pid \<and> id_task t = tid then u t else t) projects"
proof -
  have "\<And>p. p \<in> set projects \<Longrightarrow>
      map own (flattenTasks (recursiveUpdate (subtasks_p p) tid u)) =
      map (\<lambda>t. own (if id_task t = tid then u t else t)) (flattenTasks (subtasks_p p))"
    using assms by (intro flatten_recursiveUpdate) (auto simp: uniqueIds_def list_all_iff)
  then show ?thesis
    by (auto simp: view_def viewWith_def)
qed

lemma view_handleUpdateTask:
  assumes "uniqueIds projects" and "subtasks_u updates = None"
  shows "view (handleUpdateTask projects pid tid updates)
       = viewWith (\<lambda>p t. if id_p p = pid \<and> id_task t = tid then spread t updates else t) projects"
  unfolding handleUpdateTask_def
  by (rule view_recursiveUpdate) (use assms in \<open>auto simp: spread_def override_def\<close>)


lemma commitDuration_spec_ge: "15 \<le> commitDuration_spec h"
  by (simp add: commitDuration_spec_def)

lemma commitDuration_spec_dvd: "15 dvd commitDuration_spec h"
  by (simp add: commitDuration_spec_def max_def)

text \<open>
  C8. On release of a resize drag with candidate height \<open>h\<close>, the commit is the update
  \<open>{ estimatedMinutes: max(15, round(h / 15) * 15) }\<close> of the dragged task: the committed
  duration is at least 15 and a multiple of 15, and in the store only the
  \<open>estimatedMinutes\<close> of that task differs afterwards; its \<open>scheduledDate\<close> and every
  other field of every task stay as they were.
\<close>

theorem resize_commit_snaps:
  assumes "resizingTask st = Some r" and "currentResizeHeight st = Some h" and "h \<noteq> 0"
    and "uniqueIds projects"
  shows "snd (handleMouseUp (st, projects)) =
           handleUpdateTask projects (projectId_r r) (taskId_r r)
             (noUpdates\<lparr>estimatedMinutes_u := Some (commitDuration_spec h)\<rparr>)
       \<and> 15 \<le> commitDuration_spec h \<and> 15 dvd commitDuration_spec h
       \<and> view (snd (handleMouseUp (st, projects))) =
           viewWith (\<lambda>p t. if id_p p = projectId_r r \<and> id_task t = taskId_r r
                           then with_estimatedMinutes t (commitDuration_spec h) else t) projects"
proof -
  have up: "snd (handleMouseUp (st, projects)) =
           handleUpdateTask projects (projectId_r r) (taskId_r r)
             (noUpdates\<lparr>estimatedMinutes_u := Some (commitDuration_spec h)\<rparr>)"
    using assms(1-3) by (simp add: handleMouseUp_def commitDuration_spec_def snappedMinutes_formula)
  have "view (snd (handleMouseUp (st, projects))) =
           viewWith (\<lambda>p t. if id_p p = projectId_r r \<and> id_task t = taskId_r r
                           then spread t (noUpdates\<lparr>estimatedMinutes_u := Some (commitDuration_spec h)\<rparr>) else t) projects"
    unfolding up by (rule view_handleUpdateTask[OF assms(4)]) (simp add: noUpdates_def)
  then show ?thesis
    using up by (simp add: spread_estimatedMinutes commitDuration_spec_ge commitDuration_spec_dvd
        cong: if_cong)
qed

lemma commit52: "commitDuration_spec 52 = 45"
  by (simp add: commitDuration_spec_def Math_round_def)

lemma flatten_project5: "flattenTasks (subtasks_p project5) = [stage, childA, childB]"
  by (simp add: project5_def stage_def childA_def childB_def)

text \<open>
  A release at height 52 on a task nested in a stage commits 45 minutes; the stage, the
  sibling and the task's scheduled instant are as before.
\<close>

theorem resize_commit_snaps_witness:
  "uniqueIds [project5] \<and>
   snd (handleMouseUp (dragging5 52, [project5])) =
     [project5\<lparr>subtasks_p :=
        [with_subtasks stage (Some [with_estimatedMinutes childA 45, childB])]\<rparr>] \<and>
   scheduledDate (with_estimatedMinutes childA 45) = scheduledDate childA \<and>
   commitDuration_spec 52 = 45"
proof -
  have u: "uniqueIds [project5]"
    by (simp add: uniqueIds_def flatten_project5) (simp add: stage_def childA_def childB_def)
  have r: "resizingTask (dragging5 52) = Some \<lparr> projectId_r = ''p5'', taskId_r = ''c1'', startY = 100, startHeight = 30 \<rparr>"
    and h: "currentResizeHeight (dragging5 52) = Some 52"
    by (simp_all add: dragging5_def)
  have "handleUpdateTask [project5] ''p5'' ''c1'' (noUpdates\<lparr>estimatedMinutes_u := Some 45\<rparr>)
      = [project5\<lparr>subtasks_p :=
          [with_subtasks stage (Some [with_estimatedMinutes childA 45, childB])]\<rparr>]"
    by (simp add: handleUpdateTask_def project5_def stage_def childA_def childB_def
        recursiveUpdate.simps spread_estimatedMinutes)
  then show ?thesis
    using resize_commit_snaps[OF r h _ u] u
    by (simp add: commit52 with_estimatedMinutes_def)
qed

section \<open>Unscheduling\<close>

lemma with_subtasks_same: "with_subtasks t (subtasks t) = t"
  by (cases t) (simp add: with_subtasks_def)

lemma recursiveUpdate_fixes:
  "\<forall>t \<in> set (flattenTasks ts). id_task t = tid \<longrightarrow> u t = t \<Longrightarrow> recursiveUpdate ts tid u = ts"
proof (induction ts rule: flattenTasks.induct)
  case 1
  show ?case by (simp add: recursiveUpdate_Nil)
next
  case (2 task rest)
  have rest: "recursiveUpdate rest tid u = rest"
    using 2 by simp
  show ?case
  proof (cases "id_task task = tid")
    case True
    then have "u task = task" using 2(3) by simp
    with True rest show ?thesis by (simp add: recursiveUpdate_Cons)
  next
    case False
    show ?thesis
    proof (cases "subtasks task")
      case None
      with False rest show ?thesis by (simp add: recursiveUpdate_Cons)
    next
      case (Some ss)
      have "recursiveUpdate ss tid u = ss"
      proof (cases "length ss > 0")
        case True
        then show ?thesis using 2(1)[OF Some True] 2(3) Some by simp
      next
        case False
        then show ?thesis by (simp add: recursiveUpdate_Nil)
      qed
      with False Some rest show ?thesis
        using with_subtasks_same[of task] by (simp add: recursiveUpdate_Cons)
    qed
  qed
qed

lemma spread_unschedule: "scheduledDate t = None \<Longrightarrow> spread t unschedule = t"
  by (cases t) (simp add: spread_def unschedule_def noUpdates_def override_def)

text \<open>
  C9. Unscheduling a task that is already unscheduled changes nothing: when every task that
  the payload names has no \<open>scheduledDate\<close>, the store after the drop on the backlog is the
  store before it, so every field of every task in every project is unchanged.
\<close>

theorem unschedule_already_unscheduled:
  assumes "\<forall>p \<in> set projects. id_p p = pid \<longrightarrow>
             (\<forall>t \<in> set (flattenTasks (subtasks_p p)). id_task t = tid \<longrightarrow> scheduledDate t = None)"
  shows "handleUnscheduleDrop projects (Some (pid, tid)) = projects"
proof -
  have "recursiveUpdate (subtasks_p p) tid (\<lambda>t. spread t unschedule) = subtasks_p p"
    if "p \<in> set projects" "id_p p = pid" for p
    using assms that by (intro recursiveUpdate_fixes) (auto simp: spread_unschedule)
  then have "map (\<lambda>p. if id_p p \<noteq> pid then p
              else p\<lparr>subtasks_p := recursiveUpdate (subtasks_p p) tid (\<lambda>t. spread t unschedule)\<rparr>) projects
           = map (\<lambda>p. p) projects"
    by (intro map_cong) auto
  then show ?thesis
    by (simp add: handleUnscheduleDrop_def handleUpdateTask_def)
qed

text \<open>Dropping the unscheduled second task of the sample store on the backlog returns the store.\<close>

theorem unschedule_already_unscheduled_witness:
  "scheduledDate task1 = None \<and> handleUnscheduleDrop [project1] (Some (''p1'', ''t2'')) = [project1]"
proof -
  have "\<forall>p \<in> set [project1]. id_p p = ''p1'' \<longrightarrow>
      (\<forall>t \<in> set (flattenTasks (subtasks_p p)). id_task t = ''t2'' \<longrightarrow> scheduledDate t = None)"
    by (simp add: project1_def task0_def task1_def)
  from unschedule_already_unscheduled[OF this] show ?thesis
    by (simp add: task1_def)
qed

section \<open>Dates: day, hour and minute of an instant\<close>






section \<open>Drag and drop\<close>





lemma existsLocal_fixed:
  "existsLocal \<lparr> offsetAt = (\<lambda>t. c), offsetOfLocal = (\<lambda>t. c) \<rparr> tlocal"
  by (simp add: existsLocal_def LocalTime_def UTC_def)











section \<open>Resize: the height a drag starts from\<close>






section \<open>Occupancy grid: reads, writes and the loops over a day\<close>

lemma array_get_set:
  "0 \<le> i \<Longrightarrow> array_get (array_set slots i True) c \<longleftrightarrow> array_get slots c \<or> c = i"
  by (auto simp: array_get_def array_set_def nth_append nth_list_update)

lemma length_array_set:
  "0 \<le> i \<Longrightarrow> nat i < length slots \<Longrightarrow> length (array_set slots i v) = length slots"
  by (simp add: array_set_def)

declare fillSlots.simps [simp del]
declare markSlots.simps [simp del]
declare isFree.simps [simp del]
declare scanDay.simps [simp del]

lemma length_fillSlots:
  "0 \<le> i \<Longrightarrow> length slots = 24 * 60 \<Longrightarrow> length (fillSlots slots i endMin) = 24 * 60"
proof (induction slots i endMin rule: fillSlots.induct)
  case (1 slots i endMin)
  show ?case
  proof (cases "i < endMin \<and> i < 24 * 60")
    case True
    then have "length (array_set slots i True) = 24 * 60"
      using 1(2,3) by (simp add: length_array_set nat_less_iff)
    with 1 True show ?thesis
      by (subst fillSlots.simps) simp
  next
    case False
    with 1 show ?thesis by (subst fillSlots.simps) auto
  qed
qed

lemma array_get_fillSlots:
  "0 \<le> i \<Longrightarrow>
   array_get (fillSlots slots i endMin) c \<longleftrightarrow>
     array_get slots c \<or> (i \<le> c \<and> c < endMin \<and> c < 24 * 60)"
proof (induction slots i endMin rule: fillSlots.induct)
  case (1 slots i endMin)
  show ?case
  proof (cases "i < endMin \<and> i < 24 * 60")
    case True
    with 1 show ?thesis
      by (subst fillSlots.simps) (auto simp: array_get_set)
  next
    case False
    then show ?thesis by (subst fillSlots.simps) auto
  qed
qed

lemma length_markSlots:
  "0 \<le> minute + k \<Longrightarrow> minute + duration \<le> int (length slots) \<Longrightarrow>
   length (markSlots slots minute k duration) = length slots"
proof (induction slots minute k duration rule: markSlots.induct)
  case (1 slots minute k duration)
  show ?case
  proof (cases "k < duration")
    case True
    then have "length (array_set slots (minute + k) True) = length slots"
      using 1(2,3) by (simp add: length_array_set nat_less_iff)
    with 1 True show ?thesis
      by (subst markSlots.simps) simp
  next
    case False
    then show ?thesis by (subst markSlots.simps) simp
  qed
qed

lemma array_get_markSlots:
  "0 \<le> minute + k \<Longrightarrow>
   array_get (markSlots slots minute k duration) c \<longleftrightarrow>
     array_get slots c \<or> (minute + k \<le> c \<and> c < minute + duration)"
proof (induction slots minute k duration rule: markSlots.induct)
  case (1 slots minute k duration)
  show ?case
  proof (cases "k < duration")
    case True
    with 1 show ?thesis
      by (subst markSlots.simps) (auto simp: array_get_set)
  next
    case False
    then show ?thesis by (subst markSlots.simps) auto
  qed
qed

lemma isFree_iff:
  "isFree slots minute k duration \<longleftrightarrow>
     (\<forall>c. minute + k \<le> c \<and> c < minute + duration \<longrightarrow> \<not> array_get slots c)"
proof (induction slots minute k duration rule: isFree.induct)
  case (1 slots minute k duration)
  show ?case
  proof (cases "k < duration")
    case True
    show ?thesis
    proof (cases "array_get slots (minute + k)")
      case T: True
      with True show ?thesis
        by (subst isFree.simps) auto
    next
      case False
      have "(\<forall>c. minute + k \<le> c \<and> c < minute + duration \<longrightarrow> \<not> array_get slots c) \<longleftrightarrow>
            (\<forall>c. minute + (k + 1) \<le> c \<and> c < minute + duration \<longrightarrow> \<not> array_get slots c)"
      proof (intro iffI allI impI)
        fix c
        assume "\<forall>c. minute + k \<le> c \<and> c < minute + duration \<longrightarrow> \<not> array_get slots c"
          and "minute + (k + 1) \<le> c \<and> c < minute + duration"
        then show "\<not> array_get slots c" by simp
      next
        fix c
        assume h: "\<forall>c. minute + (k + 1) \<le> c \<and> c < minute + duration \<longrightarrow> \<not> array_get slots c"
          and c: "minute + k \<le> c \<and> c < minute + duration"
        show "\<not> array_get slots c"
        proof (cases "c = minute + k")
          case True
          with False show ?thesis by simp
        next
          case F: False
          with c have "minute + (k + 1) \<le> c" by simp
          with h c show ?thesis by blast
        qed
      qed
      with 1 True False show ?thesis
        by (subst isFree.simps) simp
    qed
  next
    case False
    then show ?thesis by (subst isFree.simps) auto
  qed
qed

section \<open>Occupancy grid: what a build marks\<close>

lemma getHours_nonneg: "0 \<le> getHours d"
  by (simp add: getHours_def MS_PER_DAY_def pos_imp_zdiv_nonneg_iff)

lemma getMinutes_nonneg: "0 \<le> getMinutes d"
  by (simp add: getMinutes_def pos_imp_zdiv_nonneg_iff)

lemma startMin_nonneg: "0 \<le> getHours d * 60 + getMinutes d"
  using getHours_nonneg[of d] getMinutes_nonneg[of d] by simp

lemma initOccupied_lookup:
  "initOccupied days occupied day =
     (case occupied day of
        Some slots \<Rightarrow> Some slots
      | None \<Rightarrow> if day \<in> toDateString ` set days then Some (replicate (24 * 60) False) else None)"
  by (induction days arbitrary: occupied) (auto split: option.splits)

lemma wellFormed_initOccupied: "wellFormed (initOccupied days Map.empty)"
  by (simp add: wellFormed_def initOccupied_lookup split: if_splits)

lemma busy_initOccupied: "\<not> busy (initOccupied days Map.empty) day c"
  by (simp add: busy_def initOccupied_lookup array_get_def)

lemma dom_initOccupied: "dom (initOccupied days Map.empty) = toDateString ` set days"
  by (auto simp: dom_def initOccupied_lookup split: if_splits)

lemma dom_fillTask: "dom (fillTask occupied task) = dom occupied"
  by (auto simp: fillTask_def Let_def split: option.splits if_splits)

lemma wellFormed_fillTask: "wellFormed occupied \<Longrightarrow> wellFormed (fillTask occupied task)"
  by (auto simp: wellFormed_def fillTask_def Let_def length_fillSlots startMin_nonneg
      split: option.splits if_splits)

lemma busy_fillTask:
  "busy (fillTask occupied task) day c \<longleftrightarrow>
     busy occupied day c \<or> (day \<in> dom occupied \<and> c < 24 * 60 \<and> covers task day c)"
proof (cases "scheduledDate task")
  case None
  then show ?thesis by (simp add: fillTask_def covers_def truthy_def)
next
  case (Some d)
  show ?thesis
  proof (cases "d = 0")
    case True
    with Some show ?thesis by (simp add: fillTask_def covers_def truthy_def)
  next
    case False
    show ?thesis
    proof (cases "occupied (toDateString d)")
      case None
      with Some False show ?thesis
        by (auto simp: fillTask_def covers_def truthy_def busy_def dom_def)
    next
      case S: (Some slots)
      with Some False show ?thesis
        by (auto simp: fillTask_def covers_def truthy_def busy_def dom_def Let_def
            array_get_fillSlots startMin_nonneg split: option.splits)
    qed
  qed
qed

lemma dom_fillOccupied: "dom (fillOccupied scheduled occupied) = dom occupied"
  by (induction scheduled occupied rule: fillOccupied.induct) (simp_all add: dom_fillTask)

lemma wellFormed_fillOccupied:
  "wellFormed occupied \<Longrightarrow> wellFormed (fillOccupied scheduled occupied)"
  by (induction scheduled occupied rule: fillOccupied.induct) (simp_all add: wellFormed_fillTask)

lemma busy_fillOccupied:
  "busy (fillOccupied scheduled occupied) day c \<longleftrightarrow>
     busy occupied day c \<or>
     (day \<in> dom occupied \<and> c < 24 * 60 \<and> (\<exists>(p, t) \<in> set scheduled. covers t day c))"
  by (induction scheduled occupied rule: fillOccupied.induct)
     (auto simp: busy_fillTask dom_fillTask)

lemma wellFormed_buildOccupied: "wellFormed (buildOccupied days scheduled)"
  by (simp add: buildOccupied_def wellFormed_fillOccupied wellFormed_initOccupied)

lemma dom_buildOccupied: "dom (buildOccupied days scheduled) = toDateString ` set days"
  by (simp add: buildOccupied_def dom_fillOccupied dom_initOccupied)

lemma busy_buildOccupied:
  "busy (buildOccupied days scheduled) day c \<longleftrightarrow>
     day \<in> toDateString ` set days \<and> c \<le> 1439 \<and> (\<exists>(p, t) \<in> set scheduled. covers t day c)"
  by (auto simp: buildOccupied_def busy_fillOccupied busy_initOccupied dom_initOccupied)

text \<open>
  C5. In the grid built for a horizon every day's array keeps exactly its 1440 cells (a write
  past the end would have extended it), and minute \<open>c\<close> of a day is marked exactly when the
  day is in the horizon, \<open>c\<close> is at most 1439 and some scheduled task of that same day covers
  \<open>c\<close> with \<open>[startMin, startMin + estimatedMinutes)\<close>. So an interval running past midnight
  is cut at 1439 and marks nothing on the next day. The fill loop starts at \<open>startMin\<close>,
  which is never negative, so no write falls before the array either.
\<close>

theorem occupancy_marking_clamped:
  "(\<forall>day slots. buildOccupied days scheduled day = Some slots \<longrightarrow> length slots = 24 * 60) \<and>
   (\<forall>day c. busy (buildOccupied days scheduled) day c \<longleftrightarrow>
      day \<in> toDateString ` set days \<and> c \<le> 1439 \<and> (\<exists>(p, t) \<in> set scheduled. covers t day c)) \<and>
   (\<forall>d. 0 \<le> getHours d * 60 + getMinutes d)"
  using wellFormed_buildOccupied[of days scheduled] busy_buildOccupied[of days scheduled]
    startMin_nonneg
  by (simp add: wellFormed_def)

text \<open>
  A 60-minute task at 23:30 of day 3, with days 3 and 4 in the horizon: minute 1439 of day 3
  is marked, there is no cell 1440, and minute 0 of day 4 is free in a grid of 1440 cells.
\<close>

theorem occupancy_marking_clamped_witness:
  "busy (buildOccupied [259200000, 345600000] [(project2, lateTask)]) 3 1439 \<and>
   \<not> busy (buildOccupied [259200000, 345600000] [(project2, lateTask)]) 3 1440 \<and>
   \<not> busy (buildOccupied [259200000, 345600000] [(project2, lateTask)]) 4 0 \<and>
   (\<exists>slots. buildOccupied [259200000, 345600000] [(project2, lateTask)] 4 = Some slots \<and>
      length slots = 24 * 60)"
proof -
  note t = occupancy_marking_clamped[of "[259200000, 345600000]" "[(project2, lateTask)]"]
  have c: "covers lateTask 3 1439" "\<not> covers lateTask 4 0"
    by (simp_all add: covers_def lateTask_def toDateString_def getHours_def getMinutes_def MS_PER_DAY_def)
  have "4 \<in> dom (buildOccupied [259200000, 345600000] [(project2, lateTask)])"
    by (simp add: dom_buildOccupied toDateString_def MS_PER_DAY_def)
  then obtain slots where "buildOccupied [259200000, 345600000] [(project2, lateTask)] 4 = Some slots"
    by auto
  moreover from this have "length slots = 24 * 60"
    using t by blast
  moreover have "busy (buildOccupied [259200000, 345600000] [(project2, lateTask)]) 3 1439"
    using t c by (simp add: toDateString_def MS_PER_DAY_def)
  moreover have "\<not> busy (buildOccupied [259200000, 345600000] [(project2, lateTask)]) 3 1440"
    using t by simp
  moreover have "\<not> busy (buildOccupied [259200000, 345600000] [(project2, lateTask)]) 4 0"
    using t c by simp
  ultimately show ?thesis by blast
qed

section \<open>Scheduler: the scan of a day\<close>

lemma scanDay_Some:
  "scanDay slots m0 duration = Some m \<Longrightarrow>
     m0 \<le> m \<and> m \<le> END_HOUR * 60 - duration \<and> 15 dvd (m - m0) \<and> isFree slots m 0 duration \<and>
     (\<forall>m'. m0 \<le> m' \<and> m' < m \<and> 15 dvd (m' - m0) \<longrightarrow> \<not> isFree slots m' 0 duration)"
proof (induction slots m0 duration rule: scanDay.induct)
  case (1 slots minute duration)
  show ?case
  proof (cases "minute \<le> END_HOUR * 60 - duration")
    case True
    show ?thesis
    proof (cases "isFree slots minute 0 duration")
      case T: True
      with True 1(2) have "m = minute"
        by (subst (asm) scanDay.simps) simp
      with True T show ?thesis by auto
    next
      case False
      with True 1(2) have s: "scanDay slots (minute + 15) duration = Some m"
        by (subst (asm) scanDay.simps) simp
      note ih = 1(1)[OF True False s]
      have "\<not> isFree slots m' 0 duration"
        if "minute \<le> m'" "m' < m" "15 dvd (m' - minute)" for m'
      proof (cases "m' = minute")
        case True
        with False show ?thesis by simp
      next
        case F: False
        from that(3) obtain q where q: "m' - minute = 15 * q" by (auto simp: dvd_def)
        with that(1) F have "1 \<le> q" by auto
        then have "minute + 15 \<le> m'" using q by auto
        moreover have "15 dvd (m' - (minute + 15))"
          using q by (auto simp: dvd_def intro: exI[of _ "q - 1"])
        ultimately show ?thesis using ih that(2) by blast
      qed
      moreover have "15 dvd (m - minute)"
      proof -
        from ih obtain q where "m - (minute + 15) = 15 * q" by (auto simp: dvd_def)
        then have "m - minute = 15 * (q + 1)" by auto
        then show ?thesis by (simp only: dvd_triv_left)
      qed
      ultimately show ?thesis using ih by auto
    qed
  next
    case False
    with 1(2) show ?thesis
      by (subst (asm) scanDay.simps) simp
  qed
qed

lemma scanDay_first:
  "m0 \<le> END_HOUR * 60 - duration \<Longrightarrow> isFree slots m0 0 duration \<Longrightarrow>
   scanDay slots m0 duration = Some m0"
  by (subst scanDay.simps) simp

section \<open>Completed tasks and the grid\<close>

lemma set_scheduledTasks:
  "set (scheduledTasks projects) =
     {(p, t). p \<in> set projects \<and> t \<in> set (flattenTasks (subtasks_p p)) \<and>
              status t \<noteq> COMPLETED \<and> truthy (scheduledDate t)}"
  by (auto simp: scheduledTasks_def projectEntries_def)

lemma covers_truthy: "covers t day c \<Longrightarrow> truthy (scheduledDate t)"
  by (auto simp: covers_def truthy_def split: option.splits)

lemma busy_scheduledTasks:
  "busy (buildOccupied days (scheduledTasks projects)) day c \<longleftrightarrow>
      day \<in> toDateString ` set days \<and> c \<le> 1439 \<and>
      (\<exists>p \<in> set projects. \<exists>t \<in> set (flattenTasks (subtasks_p p)).
          status t \<noteq> COMPLETED \<and> covers t day c)"
  unfolding busy_buildOccupied set_scheduledTasks
  using covers_truthy by fastforce

text \<open>
  C4. Tasks with status COMPLETED are left out of the grid: a minute is marked exactly when a
  task that is not completed covers it. So when the cells of the first horizon day from 09:00
  for a duration are covered by completed tasks only, the scheduler places a task of that
  duration there, at 09:00.
\<close>

theorem completed_tasks_excluded:
  "(busy (buildOccupied days (scheduledTasks projects)) day c \<longleftrightarrow>
      day \<in> toDateString ` set days \<and> c \<le> 1439 \<and>
      (\<exists>p \<in> set projects. \<exists>t \<in> set (flattenTasks (subtasks_p p)).
          status t \<noteq> COMPLETED \<and> covers t day c))
   \<and> ((\<forall>c. START_HOUR * 60 \<le> c \<and> c < START_HOUR * 60 + duration \<longrightarrow>
          (\<forall>p \<in> set projects. \<forall>t \<in> set (flattenTasks (subtasks_p p)).
              covers t (toDateString day0) c \<longrightarrow> status t = COMPLETED))
        \<and> START_HOUR * 60 \<le> END_HOUR * 60 - duration
      \<longrightarrow> (\<exists>occupied'. placeInDays (day0 # rest)
                (buildOccupied (day0 # rest) (scheduledTasks projects)) duration =
              Inr (Some (day0, START_HOUR * 60), occupied')))"
proof (intro conjI impI)
  show "busy (buildOccupied days (scheduledTasks projects)) day c \<longleftrightarrow>
      day \<in> toDateString ` set days \<and> c \<le> 1439 \<and>
      (\<exists>p \<in> set projects. \<exists>t \<in> set (flattenTasks (subtasks_p p)).
          status t \<noteq> COMPLETED \<and> covers t day c)"
    by (rule busy_scheduledTasks)
next
  let ?occ = "buildOccupied (day0 # rest) (scheduledTasks projects)"
  assume a: "(\<forall>c. START_HOUR * 60 \<le> c \<and> c < START_HOUR * 60 + duration \<longrightarrow>
          (\<forall>p \<in> set projects. \<forall>t \<in> set (flattenTasks (subtasks_p p)).
              covers t (toDateString day0) c \<longrightarrow> status t = COMPLETED))
        \<and> START_HOUR * 60 \<le> END_HOUR * 60 - duration"
  have "toDateString day0 \<in> dom ?occ"
    by (simp add: dom_buildOccupied)
  then obtain slots where slots: "?occ (toDateString day0) = Some slots"
    by auto
  have "\<not> array_get slots c" if "START_HOUR * 60 \<le> c" "c < START_HOUR * 60 + duration" for c
  proof -
    have "\<not> busy ?occ (toDateString day0) c"
      unfolding busy_scheduledTasks using a that by blast
    with slots show ?thesis by (simp add: busy_def)
  qed
  then have "isFree slots (START_HOUR * 60) 0 duration"
    by (simp add: isFree_iff)
  with a have "scanDay slots (START_HOUR * 60) duration = Some (START_HOUR * 60)"
    by (intro scanDay_first) simp_all
  with slots show "\<exists>occupied'. placeInDays (day0 # rest) ?occ duration =
              Inr (Some (day0, START_HOUR * 60), occupied')"
    by simp
qed

text \<open>
  A completed task stands at 09:00 of day 3 for 60 minutes: minute 540 is free in the grid,
  and a 20-minute task is placed at 09:00.
\<close>

theorem completed_tasks_excluded_witness:
  "\<not> busy (buildOccupied [291600123] (scheduledTasks [project2])) 3 540 \<and>
   covers doneTask 3 540 \<and> status doneTask = COMPLETED \<and>
   (\<exists>occupied'. placeInDays [291600123] (buildOccupied [291600123] (scheduledTasks [project2])) 20 =
       Inr (Some (291600123, 540), occupied'))"
proof -
  note t = completed_tasks_excluded[of "[291600123]" "[project2]" 3 540 20 291600123 "[]"]
  have c: "covers doneTask 3 540"
    by (simp add: covers_def doneTask_def toDateString_def getHours_def getMinutes_def MS_PER_DAY_def)
  have n: "\<not> covers task1 d c" for d c
    by (simp add: covers_def task1_def)
  have f: "set (flattenTasks (subtasks_p project2)) = {doneTask, task1}"
    by (simp add: project2_def doneTask_def task1_def)
  have s: "status doneTask = COMPLETED" "status task1 \<noteq> COMPLETED"
    by (simp_all add: doneTask_def task1_def)
  have h: "(\<forall>c. START_HOUR * 60 \<le> c \<and> c < START_HOUR * 60 + 20 \<longrightarrow>
          (\<forall>p \<in> set [project2]. \<forall>t \<in> set (flattenTasks (subtasks_p p)).
              covers t (toDateString 291600123) c \<longrightarrow> status t = COMPLETED))
        \<and> START_HOUR * 60 \<le> END_HOUR * 60 - 20"
    by (simp add: f n s START_HOUR_def END_HOUR_def)
  have "\<not> busy (buildOccupied [291600123] (scheduledTasks [project2])) 3 540"
    using t by (simp add: f n s)
  moreover have "\<exists>occupied'. placeInDays [291600123] (buildOccupied [291600123] (scheduledTasks [project2])) 20 =
       Inr (Some (291600123, 540), occupied')"
    using t h by (simp add: START_HOUR_def)
  ultimately show ?thesis using c s by blast
qed

section \<open>Scheduler: one queue entry\<close>

lemma busy_update:
  "busy (occupied(day \<mapsto> slots)) d c \<longleftrightarrow> (if d = day then array_get slots c else busy occupied d c)"
  by (simp add: busy_def)

lemma placeInDays_None: "placeInDays days occupied duration = Inr (None, occupied') \<Longrightarrow> occupied' = occupied"
  by (induction days) (auto split: option.splits if_splits)

lemma placeInDays_Some:
  assumes "placeInDays days occupied duration = Inr (Some (day, m), occupied')"
  shows "day \<in> set days" and "START_HOUR * 60 \<le> m" and "m \<le> END_HOUR * 60 - duration"
    and "15 dvd (m - START_HOUR * 60)"
    and "\<And>c. m \<le> c \<Longrightarrow> c < m + duration \<Longrightarrow> \<not> busy occupied (toDateString day) c"
    and "\<And>d c. busy occupied' d c \<longleftrightarrow>
            busy occupied d c \<or> (d = toDateString day \<and> m \<le> c \<and> c < m + duration)"
    and "dom occupied' = dom occupied"
    and "wellFormed occupied \<Longrightarrow> wellFormed occupied'"
proof -
  have "day \<in> set days \<and> START_HOUR * 60 \<le> m \<and> m \<le> END_HOUR * 60 - duration \<and>
     15 dvd (m - START_HOUR * 60) \<and>
     (\<forall>c. m \<le> c \<and> c < m + duration \<longrightarrow> \<not> busy occupied (toDateString day) c) \<and>
     (\<forall>d c. busy occupied' d c \<longleftrightarrow>
            busy occupied d c \<or> (d = toDateString day \<and> m \<le> c \<and> c < m + duration)) \<and>
     dom occupied' = dom occupied \<and> (wellFormed occupied \<longrightarrow> wellFormed occupied')"
    using assms
  proof (induction days)
    case Nil
    then show ?case by simp
  next
    case (Cons d0 rest)
    show ?case
    proof (cases "occupied (toDateString d0)")
      case None
      with Cons show ?thesis by (auto split: if_splits)
    next
      case (Some slots)
      show ?thesis
      proof (cases "scanDay slots (START_HOUR * 60) duration")
        case None
        with Some Cons show ?thesis by auto
      next
        case S: (Some m')
        with Some Cons.prems have eq: "day = d0" "m = m'"
          "occupied' = occupied(toDateString d0 \<mapsto> markSlots slots m' 0 duration)"
          by auto
        note sd = scanDay_Some[OF S]
        have m0: "0 \<le> m'" using sd by (simp add: START_HOUR_def)
        have free: "\<not> busy occupied (toDateString day) c" if "m \<le> c" "c < m + duration" for c
          using sd that Some eq by (simp add: isFree_iff busy_def)
        have upd: "busy occupied' d c \<longleftrightarrow>
            busy occupied d c \<or> (d = toDateString day \<and> m \<le> c \<and> c < m + duration)" for d c
          using Some m0 by (auto simp: eq busy_update array_get_markSlots busy_def)
        have dm: "dom occupied' = dom occupied"
          using Some by (auto simp: eq)
        have wf: "wellFormed occupied'" if "wellFormed occupied"
        proof -
          have l: "length slots = 24 * 60" using that Some by (simp add: wellFormed_def)
          have "m' + duration \<le> int (length slots)"
            using sd l by (simp add: END_HOUR_def)
          then have "length (markSlots slots m' 0 duration) = length slots"
            using m0 by (intro length_markSlots) simp_all
          with that l show ?thesis by (auto simp: wellFormed_def eq)
        qed
        have b: "START_HOUR * 60 \<le> m" "m \<le> END_HOUR * 60 - duration"
          "15 dvd (m - START_HOUR * 60)"
          using sd eq by simp_all
        have d: "day \<in> set (d0 # rest)"
          using eq by simp
        from b d free upd dm wf show ?thesis by blast
      qed
    qed
  qed
  then show "day \<in> set days" and "START_HOUR * 60 \<le> m" and "m \<le> END_HOUR * 60 - duration"
    and "15 dvd (m - START_HOUR * 60)"
    and "\<And>c. m \<le> c \<Longrightarrow> c < m + duration \<Longrightarrow> \<not> busy occupied (toDateString day) c"
    and "\<And>d c. busy occupied' d c \<longleftrightarrow>
            busy occupied d c \<or> (d = toDateString day \<and> m \<le> c \<and> c < m + duration)"
    and "dom occupied' = dom occupied"
    and "wellFormed occupied \<Longrightarrow> wellFormed occupied'"
    by blast+
qed

lemma placeInDays_total:
  "covered days occupied \<Longrightarrow> \<exists>r occupied'. placeInDays days occupied duration = Inr (r, occupied')"
  by (induction days) (auto simp: covered_def split: option.splits)

lemma placeInDays_covered:
  assumes "placeInDays days occupied duration = Inr (r, occupied')" and "covered days' occupied"
  shows "covered days' occupied'"
proof (cases r)
  case None
  with assms(1) have "occupied' = occupied"
    by (intro placeInDays_None) simp
  with assms(2) show ?thesis by simp
next
  case (Some slot)
  obtain day m where "slot = (day, m)" by (cases slot)
  with Some assms(1) have "dom occupied' = dom occupied"
    by (intro placeInDays_Some(7)) simp
  with assms(2) show ?thesis
    by (auto simp: covered_def dom_def)
qed

section \<open>Scheduler: the run over the queue\<close>


lemma scheduleQueue_updates:
  "covered days occupied \<Longrightarrow>
   \<exists>occupied'. scheduleQueue days queue (updates, occupied) =
      Inr (updates @ map updateOf (placedEntries days queue occupied), occupied')"
proof (induction queue arbitrary: updates occupied)
  case Nil
  then show ?case by simp
next
  case (Cons e rest)
  obtain project task where e: "e = (project, task)" by (cases e)
  from placeInDays_total[OF Cons.prems] obtain r occupied1 where
    p: "placeInDays days occupied (max 15 (estimatedMinutes task)) = Inr (r, occupied1)"
    by blast
  have c1: "covered days occupied1"
    using placeInDays_covered[OF p Cons.prems] .
  show ?case
  proof (cases r)
    case None
    with p e Cons.IH[OF c1, of updates] show ?thesis by simp
  next
    case (Some slot)
    obtain day m where "slot = (day, m)" by (cases slot)
    with Some p e Cons.IH[OF c1, of "updates @ [updateOf ((project, task), day, m)]"]
    show ?thesis by (simp add: updateOf_def)
  qed
qed

lemma placeInDays_mono:
  assumes "placeInDays days occupied duration = Inr (r, occupied')" and "busy occupied d c"
  shows "busy occupied' d c"
proof (cases r)
  case None
  with assms(1) have "occupied' = occupied"
    by (intro placeInDays_None) simp
  with assms(2) show ?thesis by simp
next
  case (Some slot)
  obtain day m where "slot = (day, m)" by (cases slot)
  with Some assms show ?thesis
    by (simp add: placeInDays_Some(6))
qed

lemma placedEntries_free:
  "covered days occupied \<Longrightarrow> ((project, task), day, m) \<in> set (placedEntries days queue occupied) \<Longrightarrow>
   (project, task) \<in> set queue \<and> day \<in> set days \<and>
   START_HOUR * 60 \<le> m \<and> m + max 15 (estimatedMinutes task) \<le> END_HOUR * 60 \<and>
   15 dvd (m - START_HOUR * 60) \<and>
   (\<forall>c. m \<le> c \<and> c < m + max 15 (estimatedMinutes task) \<longrightarrow>
        \<not> busy occupied (toDateString day) c)"
proof (induction queue arbitrary: occupied)
  case Nil
  then show ?case by simp
next
  case (Cons e rest)
  obtain p0 t0 where e: "e = (p0, t0)" by (cases e)
  from placeInDays_total[OF Cons.prems(1)] obtain r occupied1 where
    p: "placeInDays days occupied (max 15 (estimatedMinutes t0)) = Inr (r, occupied1)"
    by blast
  have c1: "covered days occupied1"
    using placeInDays_covered[OF p Cons.prems(1)] .
  have tail: ?case if "((project, task), day, m) \<in> set (placedEntries days rest occupied1)"
    using Cons.IH[OF c1 that] placeInDays_mono[OF p] by auto
  show ?case
  proof (cases r)
    case None
    with p e Cons.prems(2)
    have "((project, task), day, m) \<in> set (placedEntries days rest occupied1)"
      by simp
    then show ?thesis by (rule tail)
  next
    case (Some slot)
    obtain day0 m0 where slot: "slot = (day0, m0)" by (cases slot)
    note p' = p[unfolded Some slot]
    show ?thesis
    proof (cases "((project, task), day, m) = ((p0, t0), day0, m0)")
      case True
      then show ?thesis
        using placeInDays_Some(1-5)[OF p'] e by auto
    next
      case False
      with Some slot p e Cons.prems(2)
      have "((project, task), day, m) \<in> set (placedEntries days rest occupied1)"
        by auto
      then show ?thesis by (rule tail)
    qed
  qed
qed


lemma covered_buildOccupied: "covered days (buildOccupied days scheduled)"
  using dom_buildOccupied[of days scheduled] by (auto simp: covered_def dom_def)

lemma run_updates:
  "\<exists>occupied'. autoScheduleUpdates viewMode currentDate projects =
      Inr (map updateOf (placedByRun viewMode currentDate projects), occupied')"
proof -
  let ?days = "daysToSchedule viewMode currentDate"
  have "\<exists>occupied'. scheduleQueue ?days (unscheduledTasks projects)
          ([], buildOccupied ?days (scheduledTasks projects)) =
        Inr ([] @ map updateOf (placedEntries ?days (unscheduledTasks projects)
                 (buildOccupied ?days (scheduledTasks projects))), occupied')"
    by (rule scheduleQueue_updates[OF covered_buildOccupied])
  then show ?thesis
    by (simp add: autoScheduleUpdates_def placedByRun_def Let_def)
qed






section \<open>A run on a small store\<close>

lemma scanDay_skip:
  "m \<le> END_HOUR * 60 - duration \<Longrightarrow> \<not> isFree slots m 0 duration \<Longrightarrow>
   scanDay slots m duration = scanDay slots (m + 15) duration"
  by (subst scanDay.simps) simp




lemma queues_project5:
  "unscheduledTasks [project5] = [(project5, stage), (project5, childA), (project5, childB)]"
  "scheduledTasks [project5] = []"
  by (simp_all add: unscheduledTasks_def scheduledTasks_def projectEntries_def flatten_project5
      truthy_def, simp_all add: stage_def childA_def childB_def)

lemma run_project5:
  "placedByRun DAY 291600123 [project5] =
     [((project5, stage), 291600123, 540), ((project5, childA), 291600123, 555),
      ((project5, childB), 291600123, 585)]"
proof -
  let ?occ = "buildOccupied [291600123] []"
  have day: "toDateString 291600123 = 3"
    by (simp add: toDateString_def MS_PER_DAY_def)
  have "3 \<in> dom ?occ"
    by (simp add: dom_buildOccupied day)
  then obtain slots0 where s0: "?occ 3 = Some slots0"
    by auto
  have g0: "\<not> array_get slots0 c" for c
    using busy_buildOccupied[of "[291600123]" "[]" 3 c] s0
    by (simp add: busy_def)
  have sc0: "scanDay slots0 540 15 = Some 540"
    using scanDay_first[of 540 15 slots0] by (simp add: END_HOUR_def isFree_iff g0)
  let ?slots1 = "markSlots slots0 540 0 15"
  have g1: "array_get ?slots1 c \<longleftrightarrow> 540 \<le> c \<and> c < 555" for c
    by (simp add: array_get_markSlots g0)
  have "\<not> isFree ?slots1 540 0 20"
    by (simp add: isFree_iff g1) (rule exI[of _ 540], simp)
  moreover have "isFree ?slots1 555 0 20"
    by (simp add: isFree_iff g1)
  ultimately have sc1: "scanDay ?slots1 540 20 = Some 555"
    using scanDay_skip[of 540 20 ?slots1] scanDay_first[of 555 20 ?slots1]
    by (simp add: END_HOUR_def)
  let ?slots2 = "markSlots ?slots1 555 0 20"
  have g2: "array_get ?slots2 c \<longleftrightarrow> 540 \<le> c \<and> c < 575" for c
    by (auto simp: array_get_markSlots g1)
  have "\<not> isFree ?slots2 540 0 45"
    by (simp add: isFree_iff g2) (rule exI[of _ 540], simp)
  moreover have "\<not> isFree ?slots2 555 0 45"
    by (simp add: isFree_iff g2) (rule exI[of _ 555], simp)
  moreover have "\<not> isFree ?slots2 570 0 45"
    by (simp add: isFree_iff g2) (rule exI[of _ 570], simp)
  moreover have "isFree ?slots2 585 0 45"
    by (simp add: isFree_iff g2)
  ultimately have sc2: "scanDay ?slots2 540 45 = Some 585"
    using scanDay_skip[of 540 45 ?slots2] scanDay_skip[of 555 45 ?slots2]
      scanDay_skip[of 570 45 ?slots2] scanDay_first[of 585 45 ?slots2]
    by (simp add: END_HOUR_def)
  have e: "max 15 (estimatedMinutes stage) = 15" "max 15 (estimatedMinutes childA) = 20"
    "max 15 (estimatedMinutes childB) = 45"
    by (simp_all add: stage_def childA_def childB_def)
  show ?thesis
    by (simp add: placedByRun_def daysToSchedule_def queues_project5 day s0 e sc0 sc1 sc2
        START_HOUR_def)
qed






section \<open>The queue and the first fit, against the spec's words\<close>

declare preorder_spec.simps [simp del]

lemma flattenTasks_preorder: "flattenTasks ts = concat (map preorder_spec ts)"
proof (induction ts rule: flattenTasks.induct)
  case 1
  show ?case by simp
next
  case (2 task rest)
  show ?case
  proof (cases "subtasks task")
    case None
    with 2 show ?thesis by (simp add: preorder_spec.simps[of task])
  next
    case (Some ss)
    show ?thesis
    proof (cases "length ss > 0")
      case True
      with 2 Some show ?thesis by (simp add: preorder_spec.simps[of task])
    next
      case False
      with 2 Some show ?thesis by (simp add: preorder_spec.simps[of task])
    qed
  qed
qed

lemma unscheduled_queue_spec:
  "filter (\<lambda>(p, t). scheduledDate t = None) (unscheduledTasks projects) = queue_spec projects"
proof -
  have "filter (\<lambda>(p, t). scheduledDate t = None)
          (filter (\<lambda>(p', t). status t \<noteq> COMPLETED \<and> \<not> truthy (scheduledDate t)) (projectEntries p))
      = map (\<lambda>t. (p, t)) (filter (\<lambda>t. status t \<noteq> COMPLETED \<and> scheduledDate t = None)
          (concat (map preorder_spec (subtasks_p p))))" for p
    by (auto simp: projectEntries_def flattenTasks_preorder filter_map comp_def truthy_def
        intro!: arg_cong[where f = "map (Pair p)"] filter_cong)
  then show ?thesis
    by (simp add: unscheduledTasks_def queue_spec_def filter_concat comp_def)
qed

lemma isFree_slotFree:
  "occupied (toDateString day) = Some slots \<Longrightarrow>
   isFree slots start 0 duration \<longleftrightarrow> slotFree_spec occupied day start duration"
  by (auto simp: isFree_iff slotFree_spec_def busy_def)

lemma filter_steps:
  assumes "15 dvd (m - 540)"
  shows "filter (\<lambda>s. 15 dvd (s - 540)) [m + 1 .. hi] = filter (\<lambda>s. 15 dvd (s - 540)) [m + 15 .. hi]"
proof (cases "m + 14 \<le> hi")
  case True
  have none: "filter (\<lambda>s. 15 dvd (s - 540)) [m + 1 .. m + 14] = []"
  proof -
    have "\<not> 15 dvd (s - 540)" if "m + 1 \<le> s" "s \<le> m + 14" for s :: int
    proof
      assume "15 dvd (s - 540)"
      from this assms have "15 dvd ((s - 540) - (m - 540))" by (rule dvd_diff)
      then have "15 dvd (s - m)" by simp
      then obtain q where q: "s - m = 15 * q" by (auto simp: dvd_def)
      with that have "1 \<le> 15 * q" "15 * q \<le> 14" by auto
      then show False by arith
    qed
    then show ?thesis by (auto simp: filter_empty_conv)
  qed
  have "[m + 1 .. hi] = [m + 1 .. m + 14] @ [m + 14 + 1 .. hi]"
    using True by (intro upto_split2) simp_all
  also have "m + 14 + 1 = m + 15" by simp
  finally show ?thesis by (simp only: filter_append none append_Nil)
next
  case False
  have "\<not> 15 dvd (s - 540)" if "m + 1 \<le> s" "s \<le> hi" for s :: int
  proof
    assume "15 dvd (s - 540)"
    from this assms have "15 dvd ((s - 540) - (m - 540))" by (rule dvd_diff)
    then have "15 dvd (s - m)" by simp
    then obtain q where q: "s - m = 15 * q" by (auto simp: dvd_def)
    with that False have "1 \<le> 15 * q" "15 * q \<le> 14" by auto
    then show False by arith
  qed
  then have "filter (\<lambda>s. 15 dvd (s - 540)) [m + 1 .. hi] = []"
    by (auto simp: filter_empty_conv)
  moreover have "[m + 15 .. hi] = []"
    using False by simp
  ultimately show ?thesis by simp
qed

lemma scanDay_find:
  "15 dvd (m - 540) \<Longrightarrow>
   scanDay slots m duration =
     List.find (\<lambda>s. isFree slots s 0 duration)
       (filter (\<lambda>s. 15 dvd (s - 540)) [m .. 1020 - duration])"
proof (induction slots m duration rule: scanDay.induct)
  case (1 slots minute duration)
  let ?P = "\<lambda>s. isFree slots s 0 duration"
  let ?Q = "\<lambda>s::int. 15 dvd (s - 540)"
  show ?case
  proof (cases "minute \<le> END_HOUR * 60 - duration")
    case True
    then have "[minute .. 1020 - duration] = minute # [minute + 1 .. 1020 - duration]"
      by (intro upto_rec1) (simp add: END_HOUR_def)
    then have f: "filter ?Q [minute .. 1020 - duration] =
        minute # filter ?Q [minute + 15 .. 1020 - duration]"
      using 1(2) by (simp only: filter.simps if_True filter_steps)
    show ?thesis
    proof (cases "isFree slots minute 0 duration")
      case T: True
      have "scanDay slots minute duration = Some minute"
        using True T by (subst scanDay.simps) simp
      moreover have "List.find ?P (filter ?Q [minute .. 1020 - duration]) = Some minute"
        unfolding f using T by simp
      ultimately show ?thesis by simp
    next
      case False
      have "15 dvd (minute + 15 - 540)"
        using 1(2) by (metis add_diff_eq diff_add_eq dvd_add_triv_right_iff)
      note ih = 1(1)[OF True False this]
      have "scanDay slots minute duration = scanDay slots (minute + 15) duration"
        using True False by (subst scanDay.simps) simp
      moreover have "List.find ?P (filter ?Q [minute .. 1020 - duration]) =
          List.find ?P (filter ?Q [minute + 15 .. 1020 - duration])"
        unfolding f using False by simp
      ultimately show ?thesis using ih by simp
    qed
  next
    case False
    then have "scanDay slots minute duration = None"
      by (subst scanDay.simps) simp
    moreover have "[minute .. 1020 - duration] = []"
      using False by (simp add: END_HOUR_def)
    ultimately show ?thesis by simp
  qed
qed

lemma scanDay_candidates:
  assumes "occupied (toDateString day) = Some slots"
  shows "scanDay slots (START_HOUR * 60) duration =
     List.find (\<lambda>start. slotFree_spec occupied day start duration) (candidates_spec duration)"
proof -
  have "List.find (\<lambda>s. isFree slots s 0 duration) (candidates_spec duration) =
        List.find (\<lambda>start. slotFree_spec occupied day start duration) (candidates_spec duration)"
    using isFree_slotFree[of occupied day slots, OF assms] by (intro find_cong) simp_all
  then show ?thesis
    using scanDay_find[of 540 slots duration]
    by (simp add: START_HOUR_def candidates_spec_def)
qed

section \<open>The run as a greedy first fit\<close>

lemma array_get_nth: "i < length slots \<Longrightarrow> array_get slots (int i) = slots ! i"
  by (simp add: array_get_def)

lemma markSlots_map:
  assumes "0 \<le> start" and "start + duration \<le> int (length slots)"
  shows "markSlots slots start 0 duration =
     map (\<lambda>i. slots ! i \<or> (start \<le> int i \<and> int i < start + duration)) [0..<length slots]"
proof (rule nth_equalityI)
  have l: "length (markSlots slots start 0 duration) = length slots"
    using assms by (intro length_markSlots) simp_all
  then show "length (markSlots slots start 0 duration) =
    length (map (\<lambda>i. slots ! i \<or> (start \<le> int i \<and> int i < start + duration)) [0..<length slots])"
    by simp
  fix i
  assume "i < length (markSlots slots start 0 duration)"
  then have i: "i < length slots" using l by simp
  have "markSlots slots start 0 duration ! i = array_get (markSlots slots start 0 duration) (int i)"
    using i l by (simp add: array_get_nth)
  also have "\<dots> \<longleftrightarrow> array_get slots (int i) \<or> (start + 0 \<le> int i \<and> int i < start + duration)"
    using assms(1) by (intro array_get_markSlots) simp
  finally show "markSlots slots start 0 duration ! i =
    map (\<lambda>i. slots ! i \<or> (start \<le> int i \<and> int i < start + duration)) [0..<length slots] ! i"
    using i by (simp add: array_get_nth)
qed

lemma find_pairs:
  "List.find (\<lambda>(day, start). P day start) (map (\<lambda>start. (d, start)) xs) =
   map_option (\<lambda>start. (d, start)) (List.find (P d) xs)"
  by (induction xs) auto

lemma find_append_case:
  "List.find P (xs @ ys) = (case List.find P xs of None \<Rightarrow> List.find P ys | Some x \<Rightarrow> Some x)"
  by (induction xs) auto

lemma firstFit_spec_Cons:
  "firstFit_spec (day # rest) occupied duration =
     (case List.find (\<lambda>start. slotFree_spec occupied day start duration) (candidates_spec duration) of
        None \<Rightarrow> firstFit_spec rest occupied duration
      | Some start \<Rightarrow> Some (day, start))"
  by (simp add: firstFit_spec_def find_append_case find_pairs split: option.splits)

lemma candidates_spec_bounds:
  "start \<in> set (candidates_spec duration) \<Longrightarrow> 540 \<le> start \<and> start + duration \<le> 1020"
  by (auto simp: candidates_spec_def)

lemma placeInDays_firstFit:
  assumes "covered days occupied" and "wellFormed occupied"
  shows "placeInDays days occupied duration =
     Inr (case firstFit_spec days occupied duration of
            None \<Rightarrow> (None, occupied)
          | Some (day, start) \<Rightarrow> (Some (day, start), mark_spec occupied day start duration))"
  using assms(1)
proof (induction days)
  case Nil
  show ?case by (simp add: firstFit_spec_def)
next
  case (Cons day rest)
  from Cons.prems obtain slots where slots: "occupied (toDateString day) = Some slots"
    by (auto simp: covered_def)
  have rest: "covered rest occupied"
    using Cons.prems by (simp add: covered_def)
  note sc = scanDay_candidates[of occupied day slots duration, OF slots]
  show ?case
  proof (cases "List.find (\<lambda>start. slotFree_spec occupied day start duration) (candidates_spec duration)")
    case None
    with slots sc Cons.IH[OF rest] show ?thesis
      by (simp add: firstFit_spec_Cons)
  next
    case (Some start)
    then have "start \<in> set (candidates_spec duration)"
      by (auto simp: find_Some_iff)
    then have b: "540 \<le> start" "start + duration \<le> 1020"
      using candidates_spec_bounds by blast+
    have "length slots = 24 * 60"
      using assms(2) slots by (simp add: wellFormed_def)
    with b have "markSlots slots start 0 duration =
       map (\<lambda>i. slots ! i \<or> (start \<le> int i \<and> int i < start + duration)) [0..<length slots]"
      by (intro markSlots_map) simp_all
    with Some slots sc show ?thesis
      by (simp add: firstFit_spec_Cons mark_spec_def)
  qed
qed

lemma setHours_spec: "setHours day 0 start 0 0 = toDateString day * MS_PER_DAY + start * 60000"
  by (simp add: setHours_def toDateString_def)

lemma scheduleQueue_spec:
  "covered days occupied \<Longrightarrow> wellFormed occupied \<Longrightarrow>
   scheduleQueue days queue (updates, occupied) = Inr (schedule_spec days queue (updates, occupied))"
proof (induction queue arbitrary: updates occupied)
  case Nil
  show ?case by simp
next
  case (Cons e rest)
  obtain project task where e: "e = (project, task)" by (cases e)
  let ?d = "max 15 (estimatedMinutes task)"
  note p = placeInDays_firstFit[OF Cons.prems, of ?d]
  show ?case
  proof (cases "firstFit_spec days occupied ?d")
    case None
    with p e Cons.IH[OF Cons.prems] show ?thesis by simp
  next
    case (Some slot)
    obtain day start where slot: "slot = (day, start)" by (cases slot)
    from p Some slot have p': "placeInDays days occupied ?d =
        Inr (Some (day, start), mark_spec occupied day start ?d)"
      by simp
    have c: "covered days (mark_spec occupied day start ?d)"
      using placeInDays_covered[OF p' Cons.prems(1)] .
    have w: "wellFormed (mark_spec occupied day start ?d)"
      using placeInDays_Some(8)[OF p' Cons.prems(2)] .
    from p' Some slot e Cons.IH[OF c w] show ?thesis
      by (simp add: setHours_spec)
  qed
qed

lemma set_unscheduledTasks:
  "set (unscheduledTasks projects) =
     {(p, t). p \<in> set projects \<and> t \<in> set (flattenTasks (subtasks_p p)) \<and>
              status t \<noteq> COMPLETED \<and> \<not> truthy (scheduledDate t)}"
  by (auto simp: unscheduledTasks_def projectEntries_def)

lemma unscheduled_no_zero:
  assumes "\<forall>p \<in> set projects. \<forall>t \<in> set (flattenTasks (subtasks_p p)). scheduledDate t \<noteq> Some 0"
  shows "unscheduledTasks projects = queue_spec projects"
proof -
  have "scheduledDate t = None" if "(p, t) \<in> set (unscheduledTasks projects)" for p t
  proof -
    from that have "p \<in> set projects" "t \<in> set (flattenTasks (subtasks_p p))"
      "\<not> truthy (scheduledDate t)"
      by (simp_all add: set_unscheduledTasks)
    with assms show ?thesis
      by (cases "scheduledDate t") (auto simp: truthy_def)
  qed
  then have "filter (\<lambda>(p, t). scheduledDate t = None) (unscheduledTasks projects) =
      unscheduledTasks projects"
    by (intro filter_True) auto
  then show ?thesis
    using unscheduled_queue_spec[of projects] by simp
qed

text \<open>
  C2. A run is the greedy first fit of the spec: the queue entries are taken in order, each
  with duration \<open>max(15, estimatedMinutes)\<close>, and go to the first candidate start (days in
  horizon order, within a day from minute 540 to 1020 minus the duration in steps of 15)
  whose minutes are all free in the grid as marked so far; the run raises no error. The
  non-completed tasks with no scheduled instant stand in the queue in project order and,
  within a project, in pre-order of the tree; they are the whole queue unless a task has
  the instant 0 as its \<open>scheduledDate\<close>, which the source reads as unscheduled too.
\<close>

theorem greedy_first_fit:
  "autoScheduleUpdates viewMode currentDate projects =
     Inr (schedule_spec (daysToSchedule viewMode currentDate) (unscheduledTasks projects)
            ([], buildOccupied (daysToSchedule viewMode currentDate) (scheduledTasks projects)))
   \<and> filter (\<lambda>(p, t). scheduledDate t = None) (unscheduledTasks projects) = queue_spec projects
   \<and> ((\<forall>p \<in> set projects. \<forall>t \<in> set (flattenTasks (subtasks_p p)). scheduledDate t \<noteq> Some 0)
        \<longrightarrow> unscheduledTasks projects = queue_spec projects)"
  using scheduleQueue_spec[OF covered_buildOccupied wellFormed_buildOccupied]
    unscheduled_queue_spec unscheduled_no_zero
  by (simp add: autoScheduleUpdates_def Let_def)

text \<open>
  A stage with \<open>estimatedMinutes = 0\<close> and two children, on an empty day 3: the queue is the
  stage and then its children, the stage takes 09:00 to 09:15, the 20-minute child 09:15, and
  the 45-minute child the next free candidate, 09:45.
\<close>

theorem greedy_first_fit_witness:
  "autoScheduleUpdates DAY 291600123 [project5] =
     Inr (schedule_spec [291600123] [(project5, stage), (project5, childA), (project5, childB)]
            ([], buildOccupied [291600123] [])) \<and>
   fst (schedule_spec [291600123] [(project5, stage), (project5, childA), (project5, childB)]
            ([], buildOccupied [291600123] [])) =
     [\<lparr> projectId_upd = ''p5'', taskId_upd = ''s1'', date_upd = 291600000 \<rparr>,
      \<lparr> projectId_upd = ''p5'', taskId_upd = ''c1'', date_upd = 292500000 \<rparr>,
      \<lparr> projectId_upd = ''p5'', taskId_upd = ''c2'', date_upd = 294300000 \<rparr>] \<and>
   estimatedMinutes stage = 0 \<and>
   queue_spec [project5] = [(project5, stage), (project5, childA), (project5, childB)] \<and>
   unscheduledTasks [project5] = queue_spec [project5]"
proof -
  note t = greedy_first_fit[of DAY 291600123 "[project5]"]
  have n: "\<forall>p \<in> set [project5]. \<forall>t \<in> set (flattenTasks (subtasks_p p)). scheduledDate t \<noteq> Some 0"
    by (simp add: flatten_project5) (simp add: stage_def childA_def childB_def)
  have u: "map updateOf (placedByRun DAY 291600123 [project5]) =
     [\<lparr> projectId_upd = ''p5'', taskId_upd = ''s1'', date_upd = 291600000 \<rparr>,
      \<lparr> projectId_upd = ''p5'', taskId_upd = ''c1'', date_upd = 292500000 \<rparr>,
      \<lparr> projectId_upd = ''p5'', taskId_upd = ''c2'', date_upd = 294300000 \<rparr>]"
  proof -
    have "id_p project5 = ''p5''" "id_task stage = ''s1''" "id_task childA = ''c1''"
      "id_task childB = ''c2''"
      by (simp_all add: project5_def stage_def childA_def childB_def)
    then show ?thesis
      by (simp add: run_project5 updateOf_def setHours_def MS_PER_DAY_def)
  qed
  have q: "filter (\<lambda>(p, t). scheduledDate t = None) (unscheduledTasks [project5]) =
      [(project5, stage), (project5, childA), (project5, childB)]"
    by (simp add: queues_project5) (simp add: stage_def childA_def childB_def)
  have z: "estimatedMinutes stage = 0"
    by (simp add: stage_def)
  from t n have "unscheduledTasks [project5] = queue_spec [project5]"
    by blast
  with t run_updates[of DAY 291600123 "[project5]"] u q z show ?thesis
    by (auto simp: daysToSchedule_def queues_project5)
qed

section \<open>Entries that fit no slot\<close>

lemma schedule_spec_grid:
  "snd (schedule_spec days queue (updates, occupied)) = snd (schedule_spec days queue ([], occupied))"
proof (induction queue arbitrary: updates occupied)
  case Nil
  show ?case by simp
next
  case (Cons e rest)
  obtain project task where e: "e = (project, task)" by (cases e)
  show ?case
    unfolding e
    by (simp add: Let_def split: option.splits) (metis Cons.IH)
qed

lemma schedule_spec_invariants:
  assumes "covered days occupied" and "wellFormed occupied"
  shows "covered days (snd (schedule_spec days queue (updates, occupied)))"
    and "wellFormed (snd (schedule_spec days queue (updates, occupied)))"
proof -
  have "covered days (snd (schedule_spec days queue (updates, occupied))) \<and>
        wellFormed (snd (schedule_spec days queue (updates, occupied)))"
    using assms
  proof (induction queue arbitrary: updates occupied)
    case Nil
    then show ?case by simp
  next
    case (Cons e rest)
    obtain project task where e: "e = (project, task)" by (cases e)
    let ?d = "max 15 (estimatedMinutes task)"
    note p = placeInDays_firstFit[OF Cons.prems, of ?d]
    show ?case
    proof (cases "firstFit_spec days occupied ?d")
      case None
      with e Cons.IH[OF Cons.prems] show ?thesis by simp
    next
      case (Some slot)
      obtain day start where slot: "slot = (day, start)" by (cases slot)
      from p Some slot have p': "placeInDays days occupied ?d =
          Inr (Some (day, start), mark_spec occupied day start ?d)"
        by simp
      have c: "covered days (mark_spec occupied day start ?d)"
        using placeInDays_covered[OF p' Cons.prems(1)] .
      have w: "wellFormed (mark_spec occupied day start ?d)"
        using placeInDays_Some(8)[OF p' Cons.prems(2)] .
      from Some slot e Cons.IH[OF c w] show ?thesis by simp
    qed
  qed
  then show "covered days (snd (schedule_spec days queue (updates, occupied)))"
    and "wellFormed (snd (schedule_spec days queue (updates, occupied)))"
    by simp_all
qed

lemma placedEntries_append:
  "covered days occupied \<Longrightarrow> wellFormed occupied \<Longrightarrow>
   placedEntries days (xs @ ys) occupied =
     placedEntries days xs occupied @
     placedEntries days ys (snd (schedule_spec days xs ([], occupied)))"
proof (induction xs arbitrary: occupied)
  case Nil
  show ?case by simp
next
  case (Cons e rest)
  obtain project task where e: "e = (project, task)" by (cases e)
  let ?d = "max 15 (estimatedMinutes task)"
  note p = placeInDays_firstFit[OF Cons.prems, of ?d]
  show ?case
  proof (cases "firstFit_spec days occupied ?d")
    case None
    with p e Cons.IH[OF Cons.prems] show ?thesis by simp
  next
    case (Some slot)
    obtain day start where slot: "slot = (day, start)" by (cases slot)
    from p Some slot have p': "placeInDays days occupied ?d =
        Inr (Some (day, start), mark_spec occupied day start ?d)"
      by simp
    have c: "covered days (mark_spec occupied day start ?d)"
      using placeInDays_covered[OF p' Cons.prems(1)] .
    have w: "wellFormed (mark_spec occupied day start ?d)"
      using placeInDays_Some(8)[OF p' Cons.prems(2)] .
    from p' Some slot e Cons.IH[OF c w] show ?thesis
      by (simp add: schedule_spec_grid[of days rest "[_]"])
  qed
qed

lemma placedEntries_subset:
  "covered days occupied \<Longrightarrow> fst ` set (placedEntries days queue occupied) \<subseteq> set queue"
  using placedEntries_free by fastforce

lemma placedEntries_unplaced:
  assumes "covered days occupied" and "wellFormed occupied"
    and "firstFit_spec days (snd (schedule_spec days before ([], occupied)))
           (max 15 (estimatedMinutes task)) = None"
  shows "placedEntries days (before @ (project, task) # after) occupied =
     placedEntries days before occupied @
     placedEntries days after (snd (schedule_spec days before ([], occupied)))"
proof -
  let ?occ = "snd (schedule_spec days before ([], occupied))"
  have c: "covered days ?occ" and w: "wellFormed ?occ"
    using schedule_spec_invariants[OF assms(1,2)] by simp_all
  have "placeInDays days ?occ (max 15 (estimatedMinutes task)) = Inr (None, ?occ)"
    using placeInDays_firstFit[OF c w, of "max 15 (estimatedMinutes task)"] assms(3) by simp
  then have "placedEntries days ((project, task) # after) ?occ = placedEntries days after ?occ"
    by simp
  then show ?thesis
    by (simp add: placedEntries_append[OF assms(1,2)])
qed

lemma unplaced_no_update:
  assumes "covered days occupied" and "wellFormed occupied"
    and "firstFit_spec days (snd (schedule_spec days before ([], occupied)))
           (max 15 (estimatedMinutes task)) = None"
    and "distinct (map keyOf (before @ (project, task) # after))"
  shows "keyOf (project, task) \<notin>
           updateKey ` set (map updateOf (placedEntries days (before @ (project, task) # after) occupied))"
proof -
  let ?occ = "snd (schedule_spec days before ([], occupied))"
  have c: "covered days ?occ"
    using schedule_spec_invariants[OF assms(1,2)] by simp
  have k: "updateKey (updateOf x) = keyOf (fst x)" for x
    by (cases x) (auto simp: updateKey_def updateOf_def keyOf_def)
  have "fst ` set (placedEntries days (before @ (project, task) # after) occupied)
      \<subseteq> set before \<union> set after"
    unfolding placedEntries_unplaced[OF assms(1-3)]
    using placedEntries_subset[OF assms(1), of before] placedEntries_subset[OF c, of after]
    by auto
  then have "keyOf ` fst ` set (placedEntries days (before @ (project, task) # after) occupied)
      \<subseteq> keyOf ` (set before \<union> set after)"
    by blast
  moreover have "keyOf (project, task) \<notin> keyOf ` (set before \<union> set after)"
    using assms(4) by auto
  ultimately show ?thesis
    by (auto simp: k image_iff)
qed

section \<open>The bulk apply and the tasks it does not name\<close>

lemma keys_unscheduledTasks:
  "map keyOf (unscheduledTasks projects) =
     concat (map (\<lambda>p. map (\<lambda>t. (id_p p, id_task t))
        (filter (\<lambda>t. status t \<noteq> COMPLETED \<and> \<not> truthy (scheduledDate t))
           (flattenTasks (subtasks_p p)))) projects)"
  by (simp add: unscheduledTasks_def projectEntries_def map_concat comp_def filter_map keyOf_def)

lemma distinct_keys_unscheduledTasks:
  "uniqueIds projects \<Longrightarrow> distinct (map id_p projects) \<Longrightarrow>
   distinct (map keyOf (unscheduledTasks projects))"
proof (induction projects)
  case Nil
  show ?case by (simp add: unscheduledTasks_def)
next
  case (Cons p rest)
  let ?f = "\<lambda>p. map (\<lambda>t. (id_p p, id_task t))
        (filter (\<lambda>t. status t \<noteq> COMPLETED \<and> \<not> truthy (scheduledDate t))
           (flattenTasks (subtasks_p p)))"
  have d: "distinct (map id_task (flattenTasks (subtasks_p p)))"
    using Cons.prems(1) by (simp add: uniqueIds_def)
  have "distinct (map id_task (filter (\<lambda>t. status t \<noteq> COMPLETED \<and> \<not> truthy (scheduledDate t))
           (flattenTasks (subtasks_p p))))"
    using d by (rule distinct_map_filter)
  then have h: "distinct (?f p)"
    by (simp add: distinct_map inj_on_def)
  have r: "distinct (concat (map ?f rest))"
    using Cons by (simp add: keys_unscheduledTasks uniqueIds_def)
  have "fst ` set (concat (map ?f rest)) \<subseteq> id_p ` set rest"
    by auto
  moreover have "fst ` set (?f p) \<subseteq> {id_p p}"
    by auto
  moreover have "id_p p \<notin> id_p ` set rest"
    using Cons.prems(2) by simp
  ultimately have "set (?f p) \<inter> set (concat (map ?f rest)) = {}"
    by (auto simp: image_iff) 
  with h r show ?case
    by (simp add: keys_unscheduledTasks)
qed

lemma own_id: "id_task (fst (own t)) = id_task t"
  by (simp add: own_def with_subtasks_def)

lemma own_status: "status (fst (own t)) = status t"
  by (simp add: own_def with_subtasks_def)

lemma own_scheduledDate: "scheduledDate (fst (own t)) = scheduledDate t"
  by (simp add: own_def with_subtasks_def)

lemma id_spread_date:
  "id_task (spread t (noUpdates\<lparr>scheduledDate_u := Some d\<rparr>)) = id_task t"
  "subtasks (spread t (noUpdates\<lparr>scheduledDate_u := Some d\<rparr>)) = subtasks t"
  by (simp_all add: spread_def noUpdates_def override_def)

lemma bulk_view:
  assumes "distinct (map id_task (flattenTasks ts))"
  shows "map own (flattenTasks (bulkUpdateTaskInTree ts tid' (noUpdates\<lparr>scheduledDate_u := Some d\<rparr>))) =
     map (\<lambda>t. own (if id_task t = tid' then spread t (noUpdates\<lparr>scheduledDate_u := Some d\<rparr>) else t))
       (flattenTasks ts)"
  unfolding bulkUpdate_recursiveUpdate
  by (rule flatten_recursiveUpdate[OF _ assms]) (simp add: id_spread_date)

lemma bulk_ids:
  assumes "distinct (map id_task (flattenTasks ts))"
  shows "map id_task (flattenTasks (bulkUpdateTaskInTree ts tid' (noUpdates\<lparr>scheduledDate_u := Some d\<rparr>))) =
     map id_task (flattenTasks ts)"
proof -
  have "map (\<lambda>t. id_task (fst (own t)))
          (flattenTasks (bulkUpdateTaskInTree ts tid' (noUpdates\<lparr>scheduledDate_u := Some d\<rparr>))) =
        map (\<lambda>t. id_task (fst (own (if id_task t = tid'
               then spread t (noUpdates\<lparr>scheduledDate_u := Some d\<rparr>) else t)))) (flattenTasks ts)"
    using bulk_view[OF assms, of tid' d, THEN arg_cong[where f = "map (\<lambda>node. id_task (fst node))"]]
    by (simp add: comp_def)
  then show ?thesis
    by (simp add: own_id id_spread_date cong: if_cong)
qed

lemma bulk_named:
  assumes "distinct (map id_task (flattenTasks ts))" and "tid \<noteq> tid'"
  shows "filter (\<lambda>node. id_task (fst node) = tid)
           (map own (flattenTasks (bulkUpdateTaskInTree ts tid' (noUpdates\<lparr>scheduledDate_u := Some d\<rparr>)))) =
         filter (\<lambda>node. id_task (fst node) = tid) (map own (flattenTasks ts))"
proof -
  have "filter (\<lambda>node. id_task (fst node) = tid)
          (map (\<lambda>t. own (if id_task t = tid' then spread t (noUpdates\<lparr>scheduledDate_u := Some d\<rparr>) else t)) xs)
      = filter (\<lambda>node. id_task (fst node) = tid) (map own xs)" for xs
    using assms(2) by (induction xs) (auto simp: own_id id_spread_date)
  then show ?thesis
    by (simp add: bulk_view[OF assms(1)])
qed

lemma findIndex_Some: "findIndex P xs = Some i \<Longrightarrow> i < length xs \<and> P (xs ! i)"
proof (induction xs arbitrary: i)
  case Nil
  then show ?case by simp
next
  case (Cons x xs)
  then show ?case by (cases "P x") auto
qed

lemma applyUpdate_named:
  assumes "uniqueIds projects" and "updateKey u \<noteq> (pid, tid)"
  shows "tasksNamed pid tid (applyUpdate projects u) = tasksNamed pid tid projects"
proof (cases "findIndex (\<lambda>p. id_p p = projectId_upd u) projects")
  case None
  then show ?thesis by (simp add: applyUpdate_def)
next
  case (Some i)
  let ?f = "\<lambda>p. if id_p p = pid
                 then filter (\<lambda>node. id_task (fst node) = tid) (map own (flattenTasks (subtasks_p p)))
                 else []"
  let ?p' = "(projects ! i)\<lparr>subtasks_p :=
      bulkUpdateTaskInTree (subtasks_p (projects ! i)) (taskId_upd u)
        (noUpdates\<lparr>scheduledDate_u := Some (Some (date_upd u))\<rparr>)\<rparr>"
  from findIndex_Some[OF Some] have i: "i < length projects" and pi: "id_p (projects ! i) = projectId_upd u"
    by simp_all
  have d: "distinct (map id_task (flattenTasks (subtasks_p (projects ! i))))"
    using assms(1) i by (simp add: uniqueIds_def list_all_length)
  have "?f ?p' = ?f (projects ! i)"
  proof (cases "id_p (projects ! i) = pid")
    case True
    with pi assms(2) have "tid \<noteq> taskId_upd u"
      by (auto simp: updateKey_def)
    with True show ?thesis
      by (simp add: bulk_named[OF d])
  next
    case False
    then show ?thesis by simp
  qed
  then have "map ?f (projects[i := ?p']) = map ?f projects"
    by (simp add: map_update list_update_same_conv i)
  with Some show ?thesis
    by (simp add: applyUpdate_def tasksNamed_def)
qed

lemma applyUpdate_uniqueIds:
  assumes "uniqueIds projects"
  shows "uniqueIds (applyUpdate projects u)"
proof (cases "findIndex (\<lambda>p. id_p p = projectId_upd u) projects")
  case None
  with assms show ?thesis by (simp add: applyUpdate_def)
next
  case (Some i)
  let ?p' = "(projects ! i)\<lparr>subtasks_p :=
      bulkUpdateTaskInTree (subtasks_p (projects ! i)) (taskId_upd u)
        (noUpdates\<lparr>scheduledDate_u := Some (Some (date_upd u))\<rparr>)\<rparr>"
  from findIndex_Some[OF Some] have i: "i < length projects"
    by simp
  have d: "distinct (map id_task (flattenTasks (subtasks_p (projects ! i))))"
    using assms i by (simp add: uniqueIds_def list_all_length)
  then have "distinct (map id_task (flattenTasks (subtasks_p ?p')))"
    by (simp add: bulk_ids)
  moreover have "set (projects[i := ?p']) \<subseteq> insert ?p' (set projects)"
    by (rule set_update_subset_insert)
  ultimately have "uniqueIds (projects[i := ?p'])"
    using assms unfolding uniqueIds_def list_all_iff by blast
  with Some show ?thesis
    by (simp add: applyUpdate_def)
qed

lemma applyUpdates_named:
  assumes "uniqueIds projects" and "(pid, tid) \<notin> updateKey ` set updates"
  shows "tasksNamed pid tid (applyUpdates updates projects) = tasksNamed pid tid projects"
proof -
  have "tasksNamed pid tid (foldl applyUpdate projects updates) = tasksNamed pid tid projects"
    using assms
  proof (induction updates arbitrary: projects)
    case Nil
    show ?case by simp
  next
    case (Cons u rest)
    have "updateKey u \<noteq> (pid, tid)"
      using Cons.prems(2) by auto
    then have "tasksNamed pid tid (applyUpdate projects u) = tasksNamed pid tid projects"
      using Cons.prems(1) by (intro applyUpdate_named)
    moreover have "tasksNamed pid tid (foldl applyUpdate (applyUpdate projects u) rest) =
        tasksNamed pid tid (applyUpdate projects u)"
      using Cons.prems by (intro Cons.IH applyUpdate_uniqueIds) auto
    ultimately show ?case by simp
  qed
  then show ?thesis
    by (simp add: applyUpdates_def)
qed

lemma in_tasksNamed:
  "node \<in> set (tasksNamed pid tid projects) \<longleftrightarrow>
     (\<exists>p \<in> set projects. id_p p = pid \<and>
        (\<exists>t \<in> set (flattenTasks (subtasks_p p)). id_task t = tid \<and> node = own t))"
proof -
  have "node \<in> set (if id_p p = pid
                then filter (\<lambda>node. id_task (fst node) = tid) (map own (flattenTasks (subtasks_p p)))
                else []) \<longleftrightarrow>
        id_p p = pid \<and> (\<exists>t \<in> set (flattenTasks (subtasks_p p)). id_task t = tid \<and> node = own t)" for p
  proof (cases "id_p p = pid")
    case True
    have "node \<in> set (filter (\<lambda>node. id_task (fst node) = tid) (map own (flattenTasks (subtasks_p p))))
      \<longleftrightarrow> (\<exists>t \<in> set (flattenTasks (subtasks_p p)). id_task t = tid \<and> node = own t)"
    proof
      assume "node \<in> set (filter (\<lambda>node. id_task (fst node) = tid) (map own (flattenTasks (subtasks_p p))))"
      then obtain t where "t \<in> set (flattenTasks (subtasks_p p))" "node = own t" "id_task (fst node) = tid"
        by (simp add: image_iff) blast
      then show "\<exists>t \<in> set (flattenTasks (subtasks_p p)). id_task t = tid \<and> node = own t"
        using own_id[of t] by (intro bexI[of _ t]) simp_all
    next
      assume "\<exists>t \<in> set (flattenTasks (subtasks_p p)). id_task t = tid \<and> node = own t"
      then obtain t where "t \<in> set (flattenTasks (subtasks_p p))" "id_task t = tid" "node = own t"
        by blast
      then show "node \<in> set (filter (\<lambda>node. id_task (fst node) = tid) (map own (flattenTasks (subtasks_p p))))"
        by (simp add: own_id)
    qed
    with True show ?thesis by simp
  next
    case False
    then show ?thesis by simp
  qed
  then show ?thesis
    unfolding tasksNamed_def set_concat set_map by (simp only: UN_iff bex_simps) blast
qed

lemma in_keys_backlog:
  "(pid, tid) \<in> keyOf ` set (unscheduledTasks projects) \<longleftrightarrow>
     (\<exists>p \<in> set projects. id_p p = pid \<and>
        (\<exists>t \<in> set (flattenTasks (subtasks_p p)). id_task t = tid \<and>
           status t \<noteq> COMPLETED \<and> \<not> truthy (scheduledDate t)))"
proof -
  let ?F = "\<lambda>p. (\<lambda>t. (id_p p, id_task t)) `
        {t \<in> set (flattenTasks (subtasks_p p)). status t \<noteq> COMPLETED \<and> \<not> truthy (scheduledDate t)}"
  have "keyOf ` set (unscheduledTasks projects) = (\<Union>p \<in> set projects. ?F p)"
    using keys_unscheduledTasks[of projects, THEN arg_cong[where f = set]]
    by (simp add: image_Collect)
  then have "(pid, tid) \<in> keyOf ` set (unscheduledTasks projects) \<longleftrightarrow>
      (\<exists>p \<in> set projects. (pid, tid) \<in> ?F p)"
    by (simp only: UN_iff)
  also have "\<dots> \<longleftrightarrow> (\<exists>p \<in> set projects. id_p p = pid \<and>
        (\<exists>t \<in> set (flattenTasks (subtasks_p p)). id_task t = tid \<and>
           status t \<noteq> COMPLETED \<and> \<not> truthy (scheduledDate t)))"
    by (intro bex_cong refl) auto
  finally show ?thesis .
qed

lemma backlog_named:
  "(pid, tid) \<in> keyOf ` set (unscheduledTasks projects) \<longleftrightarrow>
     (\<exists>node \<in> set (tasksNamed pid tid projects).
        status (fst node) \<noteq> COMPLETED \<and> \<not> truthy (scheduledDate (fst node)))"
proof
  assume "(pid, tid) \<in> keyOf ` set (unscheduledTasks projects)"
  then obtain p t where pt: "p \<in> set projects" "id_p p = pid"
    "t \<in> set (flattenTasks (subtasks_p p))" "id_task t = tid"
    "status t \<noteq> COMPLETED" "\<not> truthy (scheduledDate t)"
    unfolding in_keys_backlog by blast
  then have "own t \<in> set (tasksNamed pid tid projects)"
    unfolding in_tasksNamed by blast
  moreover have "status (fst (own t)) \<noteq> COMPLETED \<and> \<not> truthy (scheduledDate (fst (own t)))"
    using pt by (simp add: own_status own_scheduledDate)
  ultimately show "\<exists>node \<in> set (tasksNamed pid tid projects).
        status (fst node) \<noteq> COMPLETED \<and> \<not> truthy (scheduledDate (fst node))"
    by blast
next
  assume "\<exists>node \<in> set (tasksNamed pid tid projects).
        status (fst node) \<noteq> COMPLETED \<and> \<not> truthy (scheduledDate (fst node))"
  then obtain node where n: "node \<in> set (tasksNamed pid tid projects)"
    "status (fst node) \<noteq> COMPLETED" "\<not> truthy (scheduledDate (fst node))"
    by blast
  from n(1) obtain p t where pt: "p \<in> set projects" "id_p p = pid"
    "t \<in> set (flattenTasks (subtasks_p p))" "id_task t = tid" "node = own t"
    unfolding in_tasksNamed by blast
  with n(2,3) have "status t \<noteq> COMPLETED" "\<not> truthy (scheduledDate t)"
    by (simp_all add: own_status own_scheduledDate)
  with pt show "(pid, tid) \<in> keyOf ` set (unscheduledTasks projects)"
    unfolding in_keys_backlog by blast
qed

section \<open>Infeasible placement\<close>

lemma firstFit_None_iff:
  "firstFit_spec days occupied duration = None \<longleftrightarrow>
     (\<forall>day \<in> set days. \<forall>start \<in> set (candidates_spec duration).
        \<not> slotFree_spec occupied day start duration)"
  by (auto simp: firstFit_spec_def find_None_iff)

text \<open>
  C6. A queue entry that fits no candidate slot on any day of the horizon, in the grid as
  marked when it is tried, gets no update: the run raises no error, none of its updates
  names the entry, and after the updates are applied every task with the entry's ids has
  its fields as before, so the entry is still in the backlog.
\<close>

theorem infeasible_placement_silent:
  assumes "uniqueIds projects" and "distinct (map id_p projects)"
    and "unscheduledTasks projects = before @ (project, task) # after"
    and "\<forall>day \<in> set (daysToSchedule viewMode currentDate).
           \<forall>start \<in> set (candidates_spec (max 15 (estimatedMinutes task))).
             \<not> slotFree_spec
                 (gridWhenTried (daysToSchedule viewMode currentDate) (scheduledTasks projects) before)
                 day start (max 15 (estimatedMinutes task))"
  shows "\<exists>updates occupied'.
      autoScheduleUpdates viewMode currentDate projects = Inr (updates, occupied')
    \<and> keyOf (project, task) \<notin> updateKey ` set updates
    \<and> handleAutoSchedule viewMode currentDate projects = Inr (applyUpdates updates projects)
    \<and> tasksNamed (id_p project) (id_task task) (applyUpdates updates projects) =
        tasksNamed (id_p project) (id_task task) projects
    \<and> keyOf (project, task) \<in> keyOf ` set (unscheduledTasks (applyUpdates updates projects))"
proof -
  let ?days = "daysToSchedule viewMode currentDate"
  let ?occ = "buildOccupied ?days (scheduledTasks projects)"
  let ?updates = "map updateOf (placedByRun viewMode currentDate projects)"
  from run_updates obtain occupied' where
    run: "autoScheduleUpdates viewMode currentDate projects = Inr (?updates, occupied')"
    by blast
  have none: "firstFit_spec ?days (snd (schedule_spec ?days before ([], ?occ)))
      (max 15 (estimatedMinutes task)) = None"
    using assms(4) by (simp add: firstFit_None_iff gridWhenTried_def)
  have d: "distinct (map keyOf (before @ (project, task) # after))"
    using distinct_keys_unscheduledTasks[OF assms(1,2)] assms(3) by simp
  have k: "keyOf (project, task) \<notin> updateKey ` set ?updates"
    using unplaced_no_update[OF covered_buildOccupied wellFormed_buildOccupied none d]
    by (simp add: placedByRun_def Let_def assms(3))
  have h: "handleAutoSchedule viewMode currentDate projects = Inr (applyUpdates ?updates projects)"
    by (simp add: handleAutoSchedule_def run)
  have n: "tasksNamed (id_p project) (id_task task) (applyUpdates ?updates projects) =
        tasksNamed (id_p project) (id_task task) projects"
    using k by (intro applyUpdates_named[OF assms(1)]) (simp add: keyOf_def)
  have "keyOf (project, task) \<in> keyOf ` set (unscheduledTasks projects)"
    by (simp add: assms(3))
  then have "(id_p project, id_task task) \<in> keyOf ` set (unscheduledTasks projects)"
    by (simp add: keyOf_def)
  then have "(id_p project, id_task task) \<in> keyOf ` set (unscheduledTasks (applyUpdates ?updates projects))"
    unfolding backlog_named n .
  then have b: "keyOf (project, task) \<in> keyOf ` set (unscheduledTasks (applyUpdates ?updates projects))"
    by (simp add: keyOf_def)
  from run k h n b show ?thesis by blast
qed

lemma queues_project4:
  "unscheduledTasks [project4] = [(project4, taskB)]"
  "scheduledTasks [project4] = [(project4, fullTask)]"
  by (simp_all add: unscheduledTasks_def scheduledTasks_def projectEntries_def project4_def
      fullTask_def taskB_def truthy_def)

lemma covers_fullTask: "covers fullTask day c \<longleftrightarrow> day = 3 \<and> 540 \<le> c \<and> c < 1020"
  by (auto simp: covers_def fullTask_def toDateString_def getHours_def getMinutes_def MS_PER_DAY_def)

lemma booked_project4:
  assumes "start \<in> set (candidates_spec 30)"
  shows "\<not> slotFree_spec (buildOccupied [291600123] [(project4, fullTask)]) 291600123 start 30"
proof -
  have day: "toDateString 291600123 = 3"
    by (simp add: toDateString_def MS_PER_DAY_def)
  from candidates_spec_bounds[OF assms] have b: "540 \<le> start" "start + 30 \<le> 1020"
    by simp_all
  then have "busy (buildOccupied [291600123] [(project4, fullTask)]) (toDateString 291600123) start"
    by (simp add: busy_buildOccupied day covers_fullTask)
  then show ?thesis
    by (auto simp: slotFree_spec_def intro!: bexI[of _ start])
qed

lemma run_project4: "handleAutoSchedule DAY 291600123 [project4] = Inr [project4]"
proof -
  let ?occ = "buildOccupied [291600123] [(project4, fullTask)]"
  have "firstFit_spec [291600123] (snd (schedule_spec [291600123] [] ([], ?occ)))
          (max 15 (estimatedMinutes taskB)) = None"
    using booked_project4 by (simp add: firstFit_None_iff taskB_def)
  from placedEntries_unplaced[OF covered_buildOccupied wellFormed_buildOccupied this, of project4 "[]"]
  have "placedByRun DAY 291600123 [project4] = []"
    by (simp add: placedByRun_def daysToSchedule_def queues_project4)
  with run_updates[of DAY 291600123 "[project4]"] show ?thesis
    by (auto simp: handleAutoSchedule_def applyUpdates_def)
qed

text \<open>
  Day 3 is booked from 09:00 to 17:00 by one task; the 30-minute entry of the queue fits no
  slot, the run returns the store as it was, and the entry is still in the backlog.
\<close>

theorem infeasible_placement_silent_witness:
  "uniqueIds [project4] \<and> distinct (map id_p [project4]) \<and>
   unscheduledTasks [project4] = [] @ (project4, taskB) # [] \<and>
   (\<exists>updates occupied'.
      autoScheduleUpdates DAY 291600123 [project4] = Inr (updates, occupied')
    \<and> keyOf (project4, taskB) \<notin> updateKey ` set updates
    \<and> handleAutoSchedule DAY 291600123 [project4] = Inr (applyUpdates updates [project4])
    \<and> tasksNamed (id_p project4) (id_task taskB) (applyUpdates updates [project4]) =
        tasksNamed (id_p project4) (id_task taskB) [project4]
    \<and> keyOf (project4, taskB) \<in> keyOf ` set (unscheduledTasks (applyUpdates updates [project4]))) \<and>
   handleAutoSchedule DAY 291600123 [project4] = Inr [project4]"
proof -
  have u: "uniqueIds [project4]"
    by (simp add: uniqueIds_def project4_def fullTask_def taskB_def)
  have d: "distinct (map id_p [project4])"
    by simp
  have q: "unscheduledTasks [project4] = [] @ (project4, taskB) # []"
    by (simp add: queues_project4)
  have e: "max 15 (estimatedMinutes taskB) = 30"
    by (simp add: taskB_def)
  have f: "\<forall>day \<in> set (daysToSchedule DAY 291600123).
           \<forall>start \<in> set (candidates_spec (max 15 (estimatedMinutes taskB))).
             \<not> slotFree_spec
                 (gridWhenTried (daysToSchedule DAY 291600123) (scheduledTasks [project4]) [])
                 day start (max 15 (estimatedMinutes taskB))"
    using booked_project4
    by (simp add: daysToSchedule_def gridWhenTried_def queues_project4 e)
  from infeasible_placement_silent[OF u d q f] u d q run_project4 show ?thesis
    by blast
qed

end
